theory Spec2Isabelle
  imports Complex_Main
begin

section \<open>Dense tensors\<close>

text \<open>
  The program is written against a dense tensor library.  A tensor is modelled by its shape
  and its elements in row-major (contiguous) order.  Every library operation the program
  calls is modelled as a function that returns a fresh tensor, or the error the library
  raises.  The program runs on floating-point tensors, whose arithmetic rounds; the element
  type is therefore arbitrary and the library's element arithmetic is a parameter of every
  operation that computes: the product \<open>mul\<close> of two elements, and the reduction \<open>fsum\<close>
  that \<open>th.sum\<close> applies to the elements met along an axis (given in index order; in
  which order the library adds them, and how it rounds, is part of \<open>fsum\<close>).
\<close>

datatype error = ValueError | TypeError | AttributeError | RuntimeError

definition ebind :: "'e + 'a \<Rightarrow> ('a \<Rightarrow> 'e + 'b) \<Rightarrow> 'e + 'b" where
  "ebind m f = (case m of Inl e \<Rightarrow> Inl e | Inr x \<Rightarrow> f x)"

record 'a tensor =
  shape :: "nat list"
  elems :: "'a list"

definition numel :: "nat list \<Rightarrow> nat" where
  "numel sh = prod_list sh"

definition wf :: "'a tensor \<Rightarrow> bool" where
  "wf t \<longleftrightarrow> length (elems t) = numel (shape t)"

text \<open>Row-major offset of a multi-index.\<close>

fun flat :: "nat list \<Rightarrow> nat list \<Rightarrow> nat" where
  "flat (n # sh) (i # idx) = i * numel sh + flat sh idx"
| "flat _ _ = 0"

definition valid :: "nat list \<Rightarrow> nat list \<Rightarrow> bool" where
  "valid sh idx \<longleftrightarrow> list_all2 (\<lambda>i n. i < n) idx sh"

definition entry :: "'a tensor \<Rightarrow> nat list \<Rightarrow> 'a" where
  "entry t idx = elems t ! flat (shape t) idx"

text \<open>All multi-indices of a shape, in row-major order.\<close>

fun indices :: "nat list \<Rightarrow> nat list list" where
  "indices [] = [[]]"
| "indices (n # sh) = concat (map (\<lambda>i. map ((#) i) (indices sh)) [0..<n])"

definition tabulate :: "nat list \<Rightarrow> (nat list \<Rightarrow> 'a) \<Rightarrow> 'a tensor" where
  "tabulate sh f = \<lparr>shape = sh, elems = map f (indices sh)\<rparr>"

subsection \<open>Library operations\<close>

text \<open>
  \<open>t.permute(p)\<close>: axis \<open>k\<close> of the result is axis \<open>p ! k\<close> of \<open>t\<close>.  The library refuses
  a \<open>p\<close> that is not a permutation of the axes.
\<close>

definition permute :: "nat list \<Rightarrow> 'a tensor \<Rightarrow> error + 'a tensor" where
  "permute p t =
     (if length p = length (shape t) \<and> distinct p \<and> (\<forall>d \<in> set p. d < length (shape t))
      then Inr (tabulate (map (\<lambda>d. shape t ! d) p)
                  (\<lambda>idx. entry t (map snd (sort_key fst (zip p idx)))))
      else Inl RuntimeError)"

text \<open>
  \<open>t.contiguous().view(sh)\<close>: the same elements in row-major order under a new shape;
  the library refuses a shape with a different number of elements.
\<close>

definition view :: "nat list \<Rightarrow> 'a tensor \<Rightarrow> error + 'a tensor" where
  "view sh t =
     (if numel sh = length (elems t) then Inr \<lparr>shape = sh, elems = elems t\<rparr>
      else Inl RuntimeError)"

text \<open>
  \<open>t.unfold(d, size, step)\<close>: all windows of \<open>size\<close> along axis \<open>d\<close>, \<open>step\<close> apart; the
  window becomes a new last axis.  The library refuses a window larger than the axis.
\<close>

definition unfold :: "nat \<Rightarrow> nat \<Rightarrow> nat \<Rightarrow> 'a tensor \<Rightarrow> error + 'a tensor" where
  "unfold d sz step t =
     (if d < length (shape t) \<and> sz \<le> shape t ! d \<and> 0 < step
      then Inr (tabulate ((shape t)[d := (shape t ! d - sz) div step + 1] @ [sz])
                  (\<lambda>idx. entry t ((butlast idx)[d := idx ! d * step + last idx])))
      else Inl RuntimeError)"

text \<open>
  Python's slice \<open>start:stop\<close> on an axis of length \<open>n\<close>: negative bounds count from the
  end, both are clamped to \<open>[0, n]\<close>, and an empty range is allowed.  The result is the
  first index taken and the number of indices taken.
\<close>

definition py_bound :: "nat \<Rightarrow> int \<Rightarrow> nat" where
  "py_bound n i = (let j = (if i < 0 then i + int n else i) in nat (min (int n) (max 0 j)))"

definition py_slice :: "nat \<Rightarrow> int \<Rightarrow> int \<Rightarrow> nat \<times> nat" where
  "py_slice n start stop = (py_bound n start, py_bound n stop - py_bound n start)"

definition slice :: "nat \<Rightarrow> int \<Rightarrow> int \<Rightarrow> 'a tensor \<Rightarrow> 'a tensor" where
  "slice d start stop t =
     (let (s, len) = py_slice (shape t ! d) start stop
      in tabulate ((shape t)[d := len]) (\<lambda>idx. entry t (idx[d := idx ! d + s])))"

text \<open>\<open>t[:, :, crop:-crop, crop:-crop]\<close> on a 4-axis tensor.\<close>

definition crop2d :: "int \<Rightarrow> 'a tensor \<Rightarrow> 'a tensor" where
  "crop2d crop t = slice 3 crop (- crop) (slice 2 crop (- crop) t)"

text \<open>
  Elementwise binary operations broadcast: the shapes have the same number of axes here,
  and on each axis the lengths agree or one of them is 1.
\<close>

definition broadcastable :: "nat list \<Rightarrow> nat list \<Rightarrow> bool" where
  "broadcastable sa sb \<longleftrightarrow> list_all2 (\<lambda>x y. x = y \<or> x = 1 \<or> y = 1) sa sb"

definition bidx :: "nat list \<Rightarrow> nat list \<Rightarrow> nat list" where
  "bidx sh idx = map2 (\<lambda>n i. if n = 1 then 0 else i) sh idx"

definition pointwise :: "('a \<Rightarrow> 'a \<Rightarrow> 'a) \<Rightarrow> 'a tensor \<Rightarrow> 'a tensor \<Rightarrow> error + 'a tensor" where
  "pointwise f a b =
     (if broadcastable (shape a) (shape b)
      then Inr (tabulate (map2 (\<lambda>x y. if x = 1 then y else x) (shape a) (shape b))
                  (\<lambda>idx. f (entry a (bidx (shape a) idx)) (entry b (bidx (shape b) idx))))
      else Inl RuntimeError)"

text \<open>
  \<open>th.sum(t, dim=d)\<close>: axis \<open>d\<close> is summed out; each result is the library's reduction
  \<open>fsum\<close> of the entries along that axis.
\<close>

definition sum_dim :: "('a list \<Rightarrow> 'a) \<Rightarrow> nat \<Rightarrow> 'a tensor \<Rightarrow> error + 'a tensor" where
  "sum_dim fsum d t =
     (if d < length (shape t)
      then Inr (tabulate (take d (shape t) @ drop (Suc d) (shape t))
                  (\<lambda>idx. fsum (map (\<lambda>q. entry t (take d idx @ q # drop d idx))
                                    [0..<shape t ! d])))
      else Inl RuntimeError)"

section \<open>Kernel application\<close>

text \<open>
  \<open>int(np.sqrt(n))\<close>: the square root is rounded down (the floating-point root of a
  tensor dimension is exact enough for the truncation to give the integer root).
\<close>

fun sqrt_upto :: "nat \<Rightarrow> nat \<Rightarrow> nat" where
  "sqrt_upto n 0 = 0"
| "sqrt_upto n (Suc k) = (if Suc k * Suc k \<le> n then Suc k else sqrt_upto n k)"

definition isqrt :: "nat \<Rightarrow> nat" where
  "isqrt n = sqrt_upto n n"

text \<open>
  The vectorized part of \<open>apply_kernels\<close> (between its two dashed comment lines, and the
  weighted sum after them): the kernel is laid out as \<open>(bs, 1, kh, kw, ksize*ksize)\<close>, the
  input is split in tiles laid out as \<open>(bs, ci, kh, kw, ksize*ksize)\<close>, and the product is
  summed over the last axis.
\<close>

definition weighted_sum ::
  "('a \<Rightarrow> 'a \<Rightarrow> 'a) \<Rightarrow> ('a list \<Rightarrow> 'a) \<Rightarrow> nat \<Rightarrow> nat \<Rightarrow> nat \<Rightarrow> nat \<Rightarrow> nat
     \<Rightarrow> 'a tensor \<Rightarrow> 'a tensor \<Rightarrow> error + 'a tensor" where
  "weighted_sum mul fsum bs ci kh kw ksize kernel1 noisy_data =
     ebind (permute [0, 2, 3, 1] kernel1) (\<lambda>kernel2.
     ebind (view [bs, 1, kh, kw, ksize * ksize] kernel2) (\<lambda>kernel3.
     ebind (unfold 2 ksize 1 noisy_data) (\<lambda>tiles1.
     ebind (unfold 3 ksize 1 tiles1) (\<lambda>tiles2.
     ebind (view [bs, ci, kh, kw, ksize * ksize] tiles2) (\<lambda>tiles.
     ebind (pointwise mul kernel3 tiles) (\<lambda>weighted.
     sum_dim fsum 4 weighted))))))"

text \<open>
  \<open>apply_kernels(kernel, noisy_data)\<close>, statement by statement.  The tuple unpackings of
  the two shapes raise unless both tensors have four axes.  \<open>needed\<close> and \<open>crop\<close> are
  Python integers; \<open>//\<close> rounds down.
\<close>

definition apply_kernels ::
  "('a \<Rightarrow> 'a \<Rightarrow> 'a) \<Rightarrow> ('a list \<Rightarrow> 'a) \<Rightarrow> 'a tensor \<Rightarrow> 'a tensor \<Rightarrow> error + 'a tensor" where
  "apply_kernels mul fsum kernel0 noisy_data =
     (case shape kernel0 of
        [kb, kd, kh, kw] \<Rightarrow>
          (case shape noisy_data of
             [bs, ci, h, w] \<Rightarrow>
               (let ksize = isqrt kd;
                    needed = int kh + int ksize - 1
                in if needed > int h
                   then (let crop = (needed - int h) div 2;
                             kernel1 = (if crop > 0 then crop2d crop kernel0 else kernel0)
                         in weighted_sum mul fsum bs ci (shape kernel1 ! 2) (shape kernel1 ! 3) ksize
                              kernel1 noisy_data)
                   else (let crop = (int h - needed) div 2;
                             noisy_data1 = (if crop > 0 then crop2d crop noisy_data
                                            else noisy_data)
                         in weighted_sum mul fsum bs ci kh kw ksize kernel0 noisy_data1))
           | _ \<Rightarrow> Inl ValueError)
      | _ \<Rightarrow> Inl ValueError)"

text \<open>
  The number of rows and columns the crop step of \<open>apply_kernels\<close> removes on each side
  of the kernel (when \<open>needed > h\<close>) and of the input (otherwise).
\<close>

definition kernel_crop :: "nat \<Rightarrow> nat \<Rightarrow> nat \<Rightarrow> nat" where
  "kernel_crop ksize kh h = (if kh + ksize > h + 1 then (kh + ksize - 1 - h) div 2 else 0)"

definition source_crop :: "nat \<Rightarrow> nat \<Rightarrow> nat \<Rightarrow> nat" where
  "source_crop ksize kh h = (if kh + ksize > h + 1 then 0 else (h + 1 - kh - ksize) div 2)"


text \<open>
  The two reshapes of the vectorized part succeed exactly when the element counts agree,
  and the two unfolds exactly when the window fits the input.
\<close>

definition tiles_fit :: "nat \<Rightarrow> nat \<Rightarrow> nat \<Rightarrow> nat \<Rightarrow> nat \<Rightarrow> nat \<Rightarrow> nat \<Rightarrow> nat \<Rightarrow> nat \<Rightarrow> bool" where
  "tiles_fit kb kd bs ci kh kw K h w \<longleftrightarrow>
     numel [bs, 1, kh, kw, K * K] = numel [kb, kh, kw, kd] \<and> K \<le> h \<and> K \<le> w \<and>
     numel [bs, ci, kh, kw, K * K] = numel [bs, ci, h - K + 1, w - K + 1, K, K]"

text \<open>A kernel depth is a perfect square when the rounded-down root squares back to it.\<close>

definition perfect_square :: "nat \<Rightarrow> bool" where
  "perfect_square n \<longleftrightarrow> isqrt n * isqrt n = n"

section \<open>Floating-point arithmetic\<close>

text \<open>
  The arithmetic the program's tensors really have.  A binary floating-point number is a
  pair \<open>(m, e)\<close> that stands for \<open>m * 2\<^sup>e\<close>.  The exact result of an operation is rounded
  to the nearest number with at most \<open>p\<close> significant bits, ties to the even significand
  (\<open>p = 24\<close> is single precision, the default of the tensor library; \<open>p = 53\<close> is double
  precision).  The exponent is unbounded here: overflow, underflow and the special values
  play no role in what follows.
\<close>

function bitlen :: "int \<Rightarrow> nat" where
  "bitlen a = (if a \<le> 0 then 0 else Suc (bitlen (a div 2)))"
  by auto
termination by (relation "measure nat") auto

declare bitlen.simps [simp del]

definition fval :: "int \<times> int \<Rightarrow> rat" where
  "fval x = (case x of (m, e) \<Rightarrow>
               if 0 \<le> e then of_int m * 2 ^ nat e else of_int m / 2 ^ nat (- e))"

definition fround :: "nat \<Rightarrow> int \<times> int \<Rightarrow> int \<times> int" where
  "fround p x =
     (case x of (m, e) \<Rightarrow>
        let a = \<bar>m\<bar>; s = bitlen a - p
        in if s = 0 then (m, e)
           else let q = a div 2 ^ s; r = a mod 2 ^ s;
                    q' = (if 2 * r > 2 ^ s \<or> (2 * r = 2 ^ s \<and> odd q) then q + 1 else q)
                in (sgn m * q', e + int s))"

definition fmul :: "nat \<Rightarrow> int \<times> int \<Rightarrow> int \<times> int \<Rightarrow> int \<times> int" where
  "fmul p x y = (case (x, y) of ((m1, e1), (m2, e2)) \<Rightarrow> fround p (m1 * m2, e1 + e2))"

definition fadd :: "nat \<Rightarrow> int \<times> int \<Rightarrow> int \<times> int \<Rightarrow> int \<times> int" where
  "fadd p x y =
     (case (x, y) of ((m1, e1), (m2, e2)) \<Rightarrow>
        let e = min e1 e2
        in fround p (m1 * 2 ^ nat (e1 - e) + m2 * 2 ^ nat (e2 - e), e))"

text \<open>Summation from left to right, each partial sum rounded.\<close>

definition fsum_left :: "nat \<Rightarrow> (int \<times> int) list \<Rightarrow> int \<times> int" where
  "fsum_left p xs = foldl (fadd p) (0, 0) xs"

section \<open>Model construction\<close>

text \<open>
  The classes of the module and their bases: every network class of the module derives
  from the library's \<open>nn.Module\<close>, which derives from \<open>object\<close>.
\<close>

datatype cls = Object | Module | BayerNetwork | XtransNetwork | BayerExperimental
  | BayerNN | BayerLog | BayerKP

fun mro :: "cls \<Rightarrow> cls list" where
  "mro Object = [Object]"
| "mro Module = [Module, Object]"
| "mro c = [c, Module, Object]"

text \<open>
  Python's \<open>super(c, self)\<close> for an object \<open>self\<close> of class \<open>self_cls\<close>: it raises
  \<open>TypeError\<close> unless \<open>self\<close> is an instance of \<open>c\<close>; otherwise attribute lookup
  continues in the classes after \<open>c\<close> in the method resolution order of \<open>self_cls\<close>.
\<close>

definition py_super :: "cls \<Rightarrow> cls \<Rightarrow> error + cls list" where
  "py_super c self_cls =
     (if c \<in> set (mro self_cls) then Inr (tl (dropWhile (\<lambda>x. x \<noteq> c) (mro self_cls)))
      else Inl TypeError)"

datatype pyval = PyNone | PyInt int | PyStr string | PyBool bool

type_synonym kwargs = "(string \<times> pyval) list"

datatype layer = Conv2d int int int | ReLU

record network =
  depth :: int
  width :: int
  main_processor :: "layer list"
  fullres_processor :: "layer list"

datatype pyobj = XtransNetworkObj network | OtherObj

text \<open>\<open>range(depth)\<close> and the arithmetic on \<open>width\<close> need integers (booleans count).\<close>

fun py_int :: "pyval \<Rightarrow> error + int" where
  "py_int (PyInt i) = Inr i"
| "py_int (PyBool b) = Inr (if b then 1 else 0)"
| "py_int _ = Inl TypeError"

text \<open>
  \<open>XtransNetwork.__init__(self, depth, width)\<close>.  Its first statement is
  \<open>super(BayerNetwork, self).__init__()\<close>, with \<open>self\<close> an \<open>XtransNetwork\<close>; the layers
  are built after it (their names in the ordered dictionary are left out).
\<close>

definition XtransNetwork_init :: "pyval \<Rightarrow> pyval \<Rightarrow> error + network" where
  "XtransNetwork_init depth0 width0 =
     ebind (py_super BayerNetwork XtransNetwork) (\<lambda>_.
     ebind (py_int depth0) (\<lambda>d.
     ebind (py_int width0) (\<lambda>w.
       Inr \<lparr>depth = d, width = w,
            main_processor =
              concat (map (\<lambda>i. [Conv2d w (if i = d - 1 then 2 * w else w) 3, ReLU]) [0..d - 1]),
            fullres_processor = [Conv2d 3 w 3, ReLU, Conv2d w 3 1]\<rparr>)))"

text \<open>
  The call \<open>XtransNetwork(**params)\<close>: a keyword that is not a parameter of
  \<open>__init__\<close> raises \<open>TypeError\<close>; missing ones take the defaults 11 and 64.
\<close>

definition XtransNetwork_call :: "kwargs \<Rightarrow> error + pyobj" where
  "XtransNetwork_call params =
     (if \<exists>k \<in> set (map fst params). k \<noteq> ''depth'' \<and> k \<noteq> ''width'' then Inl TypeError
      else ebind (XtransNetwork_init
                    (case map_of params ''depth'' of None \<Rightarrow> PyInt 11 | Some v \<Rightarrow> v)
                    (case map_of params ''width'' of None \<Rightarrow> PyInt 64 | Some v \<Rightarrow> v))
             (\<lambda>n. Inr (XtransNetworkObj n)))"

text \<open>
  \<open>getattr(sys.modules[__name__], model_name)\<close>: the name \<open>XtransNetwork\<close> is bound to
  the class above; what the other names of the module are bound to is a parameter.
\<close>

definition module_getattr ::
  "(string \<Rightarrow> (kwargs \<Rightarrow> error + pyobj) option) \<Rightarrow> string
     \<Rightarrow> (kwargs \<Rightarrow> error + pyobj) option" where
  "module_getattr others name =
     (if name = ''XtransNetwork'' then Some XtransNetwork_call else others name)"

text \<open>
  \<open>get(params)\<close>: the entry \<open>model\<close> is popped from a copy of the dictionary
  (an association list here); the remaining entries are the keyword arguments.
\<close>

definition get ::
  "(string \<Rightarrow> (kwargs \<Rightarrow> error + pyobj) option) \<Rightarrow> kwargs \<Rightarrow> error + pyobj" where
  "get others params =
     (let params1 = filter (\<lambda>kv. fst kv \<noteq> ''model'') params
      in case map_of params ''model'' of
           None \<Rightarrow> Inl ValueError
         | Some PyNone \<Rightarrow> Inl ValueError
         | Some (PyStr model_name) \<Rightarrow>
             (case module_getattr others model_name of
                None \<Rightarrow> Inl AttributeError
              | Some f \<Rightarrow> f params1)
         | Some _ \<Rightarrow> Inl TypeError)"

section \<open>Kernel-predicting reconstruction\<close>

text \<open>
  \<open>F.softmax(t, 1)\<close>: every vector along axis 1 is replaced by its normalization.  The
  normalization of a vector is the library's; it is the parameter \<open>smax\<close>.
\<close>

definition softmax1 :: "('a list \<Rightarrow> 'a list) \<Rightarrow> 'a tensor \<Rightarrow> error + 'a tensor" where
  "softmax1 smax t =
     (if 1 < length (shape t)
      then Inr (tabulate (shape t)
                  (\<lambda>idx. smax (map (\<lambda>q. entry t (idx[1 := q])) [0..<shape t ! 1]) ! (idx ! 1)))
      else Inl RuntimeError)"

text \<open>
  \<open>th.cat(ts, 1)\<close>: the tensors are laid one after the other along axis 1; the library
  refuses tensors whose other axes differ.
\<close>

fun cat_entry :: "'a tensor list \<Rightarrow> nat list \<Rightarrow> 'a" where
  "cat_entry [t] idx = entry t idx"
| "cat_entry (t # u # ts) idx =
     (if idx ! 1 < shape t ! 1 then entry t idx
      else cat_entry (u # ts) (idx[1 := idx ! 1 - shape t ! 1]))"

definition cat1 :: "'a tensor list \<Rightarrow> error + 'a tensor" where
  "cat1 ts =
     (case ts of
        [] \<Rightarrow> Inl RuntimeError
      | t # rest \<Rightarrow>
          if 1 < length (shape t) \<and> (\<forall>u \<in> set rest. (shape u)[1 := 0] = (shape t)[1 := 0])
          then Inr (tabulate ((shape t)[1 := sum_list (map (\<lambda>u. shape u ! 1) ts)])
                      (cat_entry ts))
          else Inl RuntimeError)"

text \<open>
  Modelled from the spec: \<open>crop_like(src, tgt)\<close> of the external \<open>torchlib.image\<close>, the
  symmetric center crop of the two spatial axes of the known plane \<open>src\<close> to the extent
  of the estimate \<open>tgt\<close>: half the difference of the extents (rounded down) is removed on
  each side; nothing is removed when no axis has anything to remove.
\<close>

definition crop_like :: "'a tensor \<Rightarrow> 'a tensor \<Rightarrow> error + 'a tensor" where
  "crop_like src tgt =
     (case (shape src, shape tgt) of
        ([b, c, h, w], [tb, tc, th, tw]) \<Rightarrow>
          (let cy = (int h - int th) div 2; cx = (int w - int tw) div 2
           in if cy > 0 \<or> cx > 0
              then Inr (slice 3 cx (int w - cx) (slice 2 cy (int h - cy) src))
              else Inr src)
      | _ \<Rightarrow> Inl RuntimeError)"

text \<open>\<open>BayerKP.unroll(buf)\<close>.\<close>

definition unroll :: "'a tensor \<Rightarrow> error + 'a tensor" where
  "unroll buf =
     (case shape buf of
        [bs, c, h, w] \<Rightarrow>
          ebind (view [bs, 2, 2, h, w] buf) (\<lambda>buf1.
          ebind (permute [0, 3, 1, 4, 2] buf1) (\<lambda>buf2.
          view [bs, 1, h * 2, w * 2] buf2))
      | _ \<Rightarrow> Inl ValueError)"

text \<open>
  The first statements of \<open>BayerKP.forward\<close>: the mosaic is summed over its channels and
  unpacked into the four planes of its \<open>2 \<times> 2\<close> tiles.
\<close>

definition color_samples_of :: "('a list \<Rightarrow> 'a) \<Rightarrow> 'a tensor \<Rightarrow> error + 'a tensor" where
  "color_samples_of fsum mosaic =
     ebind (sum_dim fsum 1 mosaic) (\<lambda>gray_mosaic.
     ebind (unfold 2 2 2 gray_mosaic) (\<lambda>u1.
     ebind (unfold 1 2 2 u1) (\<lambda>u2.
     ebind (permute [0, 3, 4, 1, 2] u2) (\<lambda>color_samples.
       case shape color_samples of
         [bs, _, _, h, w] \<Rightarrow> view [bs, 4, h, w] color_samples
       | _ \<Rightarrow> Inl ValueError))))"

text \<open>
  The loops \<open>for i in range(n)\<close> that reconstruct the missing reds and blues: each turn
  takes the next \<open>ksize * ksize\<close> channels of the kernel bank, normalizes them and applies
  them to the known plane.
\<close>

fun estimates ::
  "('a \<Rightarrow> 'a \<Rightarrow> 'a) \<Rightarrow> ('a list \<Rightarrow> 'a) \<Rightarrow> ('a list \<Rightarrow> 'a list) \<Rightarrow> nat \<Rightarrow> 'a tensor \<Rightarrow> 'a tensor
     \<Rightarrow> nat \<Rightarrow> nat \<Rightarrow> error + 'a tensor list" where
  "estimates mul fsum smax ksize kernels known idx 0 = Inr []"
| "estimates mul fsum smax ksize kernels known idx (Suc n) =
     ebind (softmax1 smax (slice 1 (int idx) (int (idx + ksize * ksize)) kernels)) (\<lambda>k.
     ebind (apply_kernels mul fsum k known) (\<lambda>e.
     ebind (estimates mul fsum smax ksize kernels known (idx + ksize * ksize) n) (\<lambda>es.
       Inr (e # es))))"

text \<open>The loop that reconstructs the missing greens from both known green planes.\<close>

fun green_estimates ::
  "('a \<Rightarrow> 'a \<Rightarrow> 'a) \<Rightarrow> ('a \<Rightarrow> 'a \<Rightarrow> 'a) \<Rightarrow> ('a list \<Rightarrow> 'a) \<Rightarrow> ('a list \<Rightarrow> 'a list) \<Rightarrow> nat
     \<Rightarrow> 'a tensor \<Rightarrow> 'a tensor \<Rightarrow> 'a tensor \<Rightarrow> nat \<Rightarrow> nat \<Rightarrow> error + 'a tensor list" where
  "green_estimates mul add fsum smax ksize kernels g0 g1 idx 0 = Inr []"
| "green_estimates mul add fsum smax ksize kernels g0 g1 idx (Suc n) =
     ebind (softmax1 smax (slice 1 (int idx) (int (idx + 2 * ksize * ksize)) kernels)) (\<lambda>k.
     ebind (apply_kernels mul fsum (slice 1 0 (int (ksize * ksize)) k) g0) (\<lambda>from_g0.
     ebind (apply_kernels mul fsum
              (slice 1 (int (ksize * ksize)) (int (2 * ksize * ksize)) k) g1) (\<lambda>from_g1.
     ebind (pointwise add from_g0 from_g1) (\<lambda>e.
     ebind (green_estimates mul add fsum smax ksize kernels g0 g1 (idx + 2 * ksize * ksize) n)
       (\<lambda>es. Inr (e # es))))))"

text \<open>The three "Reorder 2x2 tile" statements; entry 0 of each list is a known plane.\<close>

definition red_tile :: "'b list \<Rightarrow> 'b list" where
  "red_tile reds = [reds ! 1, reds ! 0, reds ! 2, reds ! 3]"

definition blue_tile :: "'b list \<Rightarrow> 'b list" where
  "blue_tile blues = [blues ! 1, blues ! 2, blues ! 0, blues ! 3]"

definition green_tile :: "'b list \<Rightarrow> 'b list" where
  "green_tile greens = [greens ! 0, greens ! 2, greens ! 3, greens ! 1]"

text \<open>
  \<open>BayerKP.forward\<close>.  The kernel predictor \<open>self.kernels\<close> (a network of the external
  \<open>torchlib\<close>) is the parameter \<open>kernels_net\<close>; \<open>ksize\<close> is \<open>self.ksize\<close>; \<open>add\<close> is the
  addition of the elements.
\<close>

definition forward ::
  "('a \<Rightarrow> 'a \<Rightarrow> 'a) \<Rightarrow> ('a \<Rightarrow> 'a \<Rightarrow> 'a) \<Rightarrow> ('a list \<Rightarrow> 'a) \<Rightarrow> ('a list \<Rightarrow> 'a list)
     \<Rightarrow> ('a tensor \<Rightarrow> error + 'a tensor) \<Rightarrow> nat \<Rightarrow> 'a tensor \<Rightarrow> error + 'a tensor" where
  "forward mul add fsum smax kernels_net ksize mosaic =
     ebind (color_samples_of fsum mosaic) (\<lambda>color_samples.
     ebind (kernels_net color_samples) (\<lambda>kernels.
       case shape kernels of
         [bs, kd, h, w] \<Rightarrow>
           (let g0 = slice 1 0 1 color_samples;
                b = slice 1 1 2 color_samples;
                r = slice 1 2 3 color_samples;
                g1 = slice 1 3 4 color_samples
            in
            ebind (estimates mul fsum smax ksize kernels r 0 3) (\<lambda>red_est.
            ebind (crop_like r (red_est ! 0)) (\<lambda>r0.
            ebind (cat1 (red_tile (r0 # red_est))) (\<lambda>reds.
            ebind (unroll reds) (\<lambda>red.
            ebind (estimates mul fsum smax ksize kernels b (3 * (ksize * ksize)) 3) (\<lambda>blue_est.
            ebind (crop_like b (blue_est ! 0)) (\<lambda>b0.
            ebind (cat1 (blue_tile (b0 # blue_est))) (\<lambda>blues.
            ebind (unroll blues) (\<lambda>blue.
            ebind (green_estimates mul add fsum smax ksize kernels g0 g1 (6 * (ksize * ksize)) 2)
              (\<lambda>green_est.
            ebind (crop_like g0 (green_est ! 0)) (\<lambda>g00.
            ebind (crop_like g1 (green_est ! 0)) (\<lambda>g10.
            ebind (cat1 (green_tile (g00 # g10 # green_est))) (\<lambda>greens.
            ebind (unroll greens) (\<lambda>green.
            cat1 [red, green, blue]))))))))))))))
       | _ \<Rightarrow> Inl ValueError))"

section \<open>Properties of the tensor operations\<close>

lemma length_concat_same:
  "(\<And>x. x \<in> set xs \<Longrightarrow> length (f x) = m) \<Longrightarrow> length (concat (map f xs)) = length xs * m"
  by (induction xs) auto

lemma length_indices: "length (indices sh) = numel sh"
  by (induction sh) (auto simp: numel_def length_concat_same)

lemma nth_concat_same:
  "(\<And>x. x \<in> set xs \<Longrightarrow> length (f x) = m) \<Longrightarrow> i < length xs \<Longrightarrow> j < m
    \<Longrightarrow> concat (map f xs) ! (i * m + j) = f (xs ! i) ! j"
proof (induction xs arbitrary: i)
  case Nil
  then show ?case by simp
next
  case (Cons x xs)
  show ?case
  proof (cases i)
    case 0
    with Cons.prems show ?thesis by (simp add: nth_append)
  next
    case (Suc k)
    have "concat (map f (x # xs)) ! (i * m + j) = concat (map f xs) ! (k * m + j)"
      using Cons.prems Suc by (simp add: nth_append)
    also have "\<dots> = f (xs ! k) ! j"
      using Cons.prems Suc by (intro Cons.IH) auto
    finally show ?thesis using Suc by simp
  qed
qed

lemma flat_less: "valid sh idx \<Longrightarrow> flat sh idx < numel sh"
proof (induction sh idx rule: flat.induct)
  case (1 n sh i idx)
  then have i: "i < n" and v: "valid sh idx" by (auto simp: valid_def)
  from 1 v have f: "flat sh idx < numel sh" by simp
  have "i * numel sh + flat sh idx < i * numel sh + numel sh" using f by simp
  also have "\<dots> = Suc i * numel sh" by simp
  also have "\<dots> \<le> n * numel sh" using i by (intro mult_le_mono1) simp
  finally show ?case by (simp add: numel_def)
qed (auto simp: valid_def numel_def)

lemma nth_indices: "valid sh idx \<Longrightarrow> indices sh ! flat sh idx = idx"
proof (induction sh idx rule: flat.induct)
  case (1 n sh i idx)
  then have i: "i < n" and v: "valid sh idx" by (auto simp: valid_def)
  have "concat (map (\<lambda>i. map ((#) i) (indices sh)) [0..<n]) ! (i * numel sh + flat sh idx)
        = map ((#) ([0..<n] ! i)) (indices sh) ! flat sh idx"
    using i flat_less[OF v] by (intro nth_concat_same) (auto simp: length_indices)
  then show ?case using 1 i v flat_less[OF v] by (simp add: length_indices)
qed (auto simp: valid_def)

lemma at_tabulate: "valid sh idx \<Longrightarrow> entry (tabulate sh f) idx = f idx"
  by (simp add: entry_def tabulate_def nth_indices flat_less length_indices)

lemma shape_tabulate: "shape (tabulate sh f) = sh"
  by (simp add: tabulate_def)

lemma wf_tabulate: "wf (tabulate sh f)"
  by (simp add: wf_def tabulate_def length_indices)

lemma valid_indices: "idx \<in> set (indices sh) \<Longrightarrow> valid sh idx"
  by (induction sh arbitrary: idx) (auto simp: valid_def)

lemma isqrt_aux: "K \<le> m \<Longrightarrow> sqrt_upto (K * K) m = K"
proof (induction m)
  case 0 then show ?case by simp
next
  case (Suc m)
  show ?case
  proof (cases "K = Suc m")
    case True then show ?thesis by simp
  next
    case False
    with Suc.prems have "K \<le> m" by simp
    moreover have "K * K \<le> m * m" using \<open>K \<le> m\<close> by (simp add: mult_le_mono)
    then have "\<not> Suc m * Suc m \<le> K * K" by simp
    ultimately show ?thesis using Suc.IH by simp
  qed
qed

lemma isqrt_square: "isqrt (K * K) = K"
  unfolding isqrt_def by (rule isqrt_aux) (cases K; simp)

lemma valid4 [simp]: "valid [a,b,c,d] [i,j,k,l] \<longleftrightarrow> i < a \<and> j < b \<and> k < c \<and> l < d"
  by (auto simp: valid_def)

lemma valid5 [simp]: "valid [a,b,c,d,e] [i,j,k,l,m] \<longleftrightarrow> i < a \<and> j < b \<and> k < c \<and> l < d \<and> m < e"
  by (auto simp: valid_def)

lemma valid6 [simp]: "valid [a,b,c,d,e,f] [i,j,k,l,m,n] \<longleftrightarrow> i < a \<and> j < b \<and> k < c \<and> l < d \<and> m < e \<and> n < f"
  by (auto simp: valid_def)

lemma permute_0231:
  assumes "shape t = [a,b,c,d]"
  shows "\<exists>r. permute [0,2,3,1] t = Inr r \<and> shape r = [a,c,d,b] \<and> wf r \<and>
     (\<forall>i j k l. i<a \<longrightarrow> j<c \<longrightarrow> k<d \<longrightarrow> l<b \<longrightarrow> entry r [i,j,k,l] = entry t [i,l,j,k])"
  using assms by (simp add: permute_def shape_tabulate wf_tabulate at_tabulate)

lemma py_slice_crop: "0 < c \<Longrightarrow> py_slice n c (- c) = (min n (nat c), n - 2 * nat c)"
  by (auto simp: py_slice_def py_bound_def Let_def min_def max_def)

lemma crop2d_4:
  assumes "shape t = [a,b,h,w]" "0 < c"
  shows "shape (crop2d c t) = [a,b,h - 2 * nat c, w - 2 * nat c] \<and> wf (crop2d c t) \<and>
     (\<forall>i j k l. i<a \<longrightarrow> j<b \<longrightarrow> k<h - 2 * nat c \<longrightarrow> l < w - 2 * nat c \<longrightarrow>
         entry (crop2d c t) [i,j,k,l] = entry t [i,j,k + nat c, l + nat c])"
  using assms
  by (auto simp: crop2d_def slice_def py_slice_crop shape_tabulate wf_tabulate at_tabulate min_def)

lemma unfold_2:
  assumes "shape t = [a,b,h,w]" "K \<le> h"
  shows "\<exists>r. unfold 2 K 1 t = Inr r \<and> shape r = [a,b,h - K + 1,w,K] \<and> wf r \<and>
     (\<forall>i j k l u. i<a \<longrightarrow> j<b \<longrightarrow> k<h - K + 1 \<longrightarrow> l < w \<longrightarrow> u < K \<longrightarrow>
         entry r [i,j,k,l,u] = entry t [i,j,k + u, l])"
  using assms
  by (auto simp: unfold_def shape_tabulate wf_tabulate at_tabulate)

lemma unfold_3:
  assumes "shape t = [a,b,h,w,e]" "K \<le> w"
  shows "\<exists>r. unfold 3 K 1 t = Inr r \<and> shape r = [a,b,h,w - K + 1,e,K] \<and> wf r \<and>
     (\<forall>i j k l u v. i<a \<longrightarrow> j<b \<longrightarrow> k<h \<longrightarrow> l < w - K + 1 \<longrightarrow> u < e \<longrightarrow> v < K \<longrightarrow>
         entry r [i,j,k,l,u,v] = entry t [i,j,k, l + v, u])"
  using assms
  by (auto simp: unfold_def shape_tabulate wf_tabulate at_tabulate)

lemma unfold_fail: "shape t ! d < K \<Longrightarrow> unfold d K s t = Inl RuntimeError"
  by (simp add: unfold_def)

lemma ebind_Inr [simp]: "ebind (Inr x) f = f x"
  by (simp add: ebind_def)

lemma ebind_Inl [simp]: "ebind (Inl e) f = Inl e"
  by (simp add: ebind_def)

lemma view_ok:
  assumes "wf t" "numel sh = numel (shape t)"
  shows "view sh t = Inr \<lparr>shape = sh, elems = elems t\<rparr>"
  using assms by (simp add: view_def wf_def)

lemma view_fail:
  assumes "wf t" "numel sh \<noteq> numel (shape t)"
  shows "view sh t = Inl RuntimeError"
  using assms by (simp add: view_def wf_def)

lemma at_view_kernel:
  assumes "shape t = [bs, kh, kw, q]" "wf t"
  shows "entry \<lparr>shape = [bs, 1, kh, kw, q], elems = elems t\<rparr> [b, 0, i, j, u] = entry t [b, i, j, u]"
  using assms by (simp add: entry_def numel_def)

lemma at_view_tiles:
  assumes "shape t = [bs, ci, kh, kw, K, K]" "u < K" "v < K"
  shows "entry \<lparr>shape = [bs, ci, kh, kw, K * K], elems = elems t\<rparr> [b, c, i, j, u * K + v]
         = entry t [b, c, i, j, u, v]"
  using assms by (simp add: entry_def numel_def algebra_simps)

lemma sum_dim_4:
  assumes "shape t = [a, b, c, d, e]"
  shows "sum_dim fsum 4 t = Inr (tabulate [a, b, c, d]
           (\<lambda>idx. fsum (map (\<lambda>q. entry t (take 4 idx @ q # drop 4 idx)) [0..<e])))"
  using assms by (simp add: sum_dim_def)

lemma pointwise_kernel_tiles:
  assumes "shape a = [bs, 1, kh, kw, q]" "shape b = [bs, ci, kh, kw, q]"
  shows "pointwise f a b = Inr (tabulate [bs, ci, kh, kw, q]
           (\<lambda>idx. f (entry a (bidx (shape a) idx)) (entry b (bidx (shape b) idx))))"
  using assms by (simp add: pointwise_def broadcastable_def)

lemma bidx5_kernel:
  assumes "b < bs" "i < kh" "j < kw" "u < q"
  shows "bidx [bs, 1, kh, kw, q] [b, c, i, j, u] = [b, 0, i, j, u]"
  using assms by (auto simp: bidx_def)

lemma bidx5_tiles:
  assumes "b < bs" "c < ci" "i < kh" "j < kw" "u < q"
  shows "bidx [bs, ci, kh, kw, q] [b, c, i, j, u] = [b, c, i, j, u]"
  using assms by (auto simp: bidx_def)

lemma weighted_sum_entries:
  fixes k1 n1 :: "'a tensor"
  assumes k: "shape k1 = [bs, K * K, kh, kw]"
      and n: "shape n1 = [bs, ci, h, w]"
      and hw: "kh + K = h + 1" "kw + K = w + 1" "0 < kh" "0 < kw"
  shows "\<exists>out. weighted_sum mul fsum bs ci kh kw K k1 n1 = Inr out \<and> shape out = [bs, ci, kh, kw] \<and> wf out \<and>
           (\<forall>b<bs. \<forall>c<ci. \<forall>i<kh. \<forall>j<kw.
              entry out [b, c, i, j] =
                fsum (map (\<lambda>q. mul (entry k1 [b, q, i, j])
                                   (entry n1 [b, c, i + q div K, j + q mod K]))
                        [0..<K * K]))"
proof -
  from permute_0231[OF k] obtain k2 where
    k2: "permute [0,2,3,1] k1 = Inr k2" "shape k2 = [bs, kh, kw, K * K]" "wf k2"
    and k2at: "\<And>i j k l. i<bs \<Longrightarrow> j<kh \<Longrightarrow> k<kw \<Longrightarrow> l<K * K \<Longrightarrow> entry k2 [i,j,k,l] = entry k1 [i,l,j,k]"
    by blast
  define k3 where "k3 = \<lparr>shape = [bs, 1, kh, kw, K * K], elems = elems k2\<rparr>"
  have k3: "view [bs, 1, kh, kw, K * K] k2 = Inr k3"
    unfolding k3_def using k2 by (intro view_ok) (simp_all add: numel_def)
  have Kh: "K \<le> h" and Kw: "K \<le> w" using hw by auto
  from unfold_2[OF n Kh] obtain t1 where
    t1: "unfold 2 K 1 n1 = Inr t1" "shape t1 = [bs, ci, h - K + 1, w, K]"
    and t1at: "\<And>i j k l u. i<bs \<Longrightarrow> j<ci \<Longrightarrow> k<h - K + 1 \<Longrightarrow> l < w \<Longrightarrow> u < K \<Longrightarrow>
         entry t1 [i,j,k,l,u] = entry n1 [i,j,k + u, l]"
    by blast
  have hk: "h - K + 1 = kh" and wk: "w - K + 1 = kw" using hw by auto
  from unfold_3[OF t1(2) Kw] obtain t2 where
    t2: "unfold 3 K 1 t1 = Inr t2" "shape t2 = [bs, ci, kh, kw, K, K]" "wf t2"
    and t2at: "\<And>i j k l u v. i<bs \<Longrightarrow> j<ci \<Longrightarrow> k<kh \<Longrightarrow> l < kw \<Longrightarrow> u < K \<Longrightarrow> v < K \<Longrightarrow>
         entry t2 [i,j,k,l,u,v] = entry t1 [i,j,k, l + v, u]"
    unfolding hk wk by blast
  define tiles where "tiles = \<lparr>shape = [bs, ci, kh, kw, K * K], elems = elems t2\<rparr>"
  have tiles: "view [bs, ci, kh, kw, K * K] t2 = Inr tiles"
    unfolding tiles_def using t2 by (intro view_ok) (simp_all add: numel_def)
  define weighted where "weighted = tabulate [bs, ci, kh, kw, K * K]
           (\<lambda>idx. mul (entry k3 (bidx (shape k3) idx)) (entry tiles (bidx (shape tiles) idx)))"
  have weighted: "pointwise mul k3 tiles = Inr weighted"
    unfolding weighted_def by (rule pointwise_kernel_tiles) (simp_all add: k3_def tiles_def)
  define out where "out = tabulate [bs, ci, kh, kw]
           (\<lambda>idx. fsum (map (\<lambda>q. entry weighted (take 4 idx @ q # drop 4 idx)) [0..<K * K]))"
  have out: "sum_dim fsum 4 weighted = Inr out"
    unfolding out_def by (rule sum_dim_4) (simp add: weighted_def shape_tabulate)
  have run: "weighted_sum mul fsum bs ci kh kw K k1 n1 = Inr out"
    by (simp only: weighted_sum_def k2(1) k3 t1(1) t2(1) tiles weighted out ebind_Inr)
  have val: "entry out [b, c, i, j] =
                fsum (map (\<lambda>q. mul (entry k1 [b, q, i, j])
                                   (entry n1 [b, c, i + q div K, j + q mod K]))
                        [0..<K * K])"
    if b: "b < bs" and c: "c < ci" and i: "i < kh" and j: "j < kw" for b c i j
  proof -
    have "entry out [b, c, i, j] = fsum (map (\<lambda>q. entry weighted [b, c, i, j, q]) [0..<K * K])"
      using that by (simp add: out_def at_tabulate)
    moreover have "map (\<lambda>q. entry weighted [b, c, i, j, q]) [0..<K * K]
        = map (\<lambda>q. mul (entry k1 [b, q, i, j]) (entry n1 [b, c, i + q div K, j + q mod K]))
            [0..<K * K]"
    proof (rule map_cong[OF refl])
      fix q assume "q \<in> set [0..<K * K]"
      then have q: "q < K * K" by simp
      then have K0: "0 < K" by (cases K) auto
      have u: "q div K < K" using q K0 by (simp add: less_mult_imp_div_less)
      have v: "q mod K < K" using K0 by simp
      have "entry weighted [b, c, i, j, q]
              = mul (entry k3 [b, 0, i, j, q]) (entry tiles [b, c, i, j, q])"
        using that q bidx5_kernel[of b bs i kh j kw q "K * K" c]
        by (simp add: weighted_def at_tabulate k3_def tiles_def bidx5_tiles)
      moreover have "entry k3 [b, 0, i, j, q] = entry k1 [b, q, i, j]"
        unfolding k3_def using at_view_kernel[OF k2(2) k2(3)] k2at that q by simp
      moreover have "entry tiles [b, c, i, j, q div K * K + q mod K] = entry t2 [b, c, i, j, q div K, q mod K]"
        unfolding tiles_def using at_view_tiles[OF t2(2) u v] by simp
      then have "entry tiles [b, c, i, j, q] = entry t2 [b, c, i, j, q div K, q mod K]" by simp
      moreover have "entry t2 [b, c, i, j, q div K, q mod K] = entry n1 [b, c, i + q div K, j + q mod K]"
        using t2at[OF b c i j u v] t1at[of b c i "j + q mod K" "q div K"] that u v hw by simp
      ultimately show "entry weighted [b, c, i, j, q]
          = mul (entry k1 [b, q, i, j]) (entry n1 [b, c, i + q div K, j + q mod K])"
        by simp
    qed
    ultimately show ?thesis by simp
  qed
  show ?thesis using run val by (auto simp: out_def shape_tabulate wf_tabulate)
qed

lemma apply_kernels_kernel_branch:
  assumes "shape kernel0 = [kb, kd, kh, kw]" "shape src = [bs, ci, h, w]"
    and "kh + isqrt kd > h + 1"
  shows "apply_kernels mul fsum kernel0 src =
     (let c = kernel_crop (isqrt kd) kh h;
          kernel1 = (if 0 < c then crop2d (int c) kernel0 else kernel0)
      in weighted_sum mul fsum bs ci (kh - 2 * c) (kw - 2 * c) (isqrt kd) kernel1 src)"
proof -
  define c where "c = kernel_crop (isqrt kd) kh h"
  have needed: "int kh + int (isqrt kd) - 1 > int h" using assms(3) by linarith
  have crop: "(int kh + int (isqrt kd) - 1 - int h) div 2 = int c"
    using assms(3) unfolding c_def kernel_crop_def by (simp add: zdiv_int of_nat_diff)
  show ?thesis
  proof (cases "0 < c")
    case True
    then have "shape (crop2d (int c) kernel0) = [kb, kd, kh - 2 * c, kw - 2 * c]"
      using crop2d_4[OF assms(1), of "int c"] by simp
    then show ?thesis
      using True needed crop assms(1,2) unfolding apply_kernels_def c_def[symmetric] Let_def
      by simp
  next
    case False
    then show ?thesis
      using needed crop assms(1,2) unfolding apply_kernels_def c_def[symmetric] Let_def
      by simp
  qed
qed

lemma apply_kernels_source_branch:
  assumes "shape kernel0 = [kb, kd, kh, kw]" "shape src = [bs, ci, h, w]"
    and "\<not> kh + isqrt kd > h + 1"
  shows "apply_kernels mul fsum kernel0 src =
     (let c = source_crop (isqrt kd) kh h;
          noisy_data1 = (if 0 < c then crop2d (int c) src else src)
      in weighted_sum mul fsum bs ci kh kw (isqrt kd) kernel0 noisy_data1)"
proof -
  define c where "c = source_crop (isqrt kd) kh h"
  have needed: "\<not> int kh + int (isqrt kd) - 1 > int h" using assms(3) by linarith
  have crop: "(int h - (int kh + int (isqrt kd) - 1)) div 2 = int c"
  proof -
    have "int h - (int kh + int (isqrt kd) - 1) = int (h + 1 - kh - isqrt kd)"
      using assms(3) by linarith
    then show ?thesis using assms(3) unfolding c_def source_crop_def by (simp add: zdiv_int)
  qed
  show ?thesis
    using needed crop assms(1,2) unfolding apply_kernels_def c_def[symmetric] Let_def
    by simp
qed

lemma apply_kernels_entries_core:
  fixes kernel0 src :: "'a tensor"
  assumes k: "shape kernel0 = [bs, K * K, kh, kw]"
      and n: "shape src = [bs, ci, h, w]"
      and kc: "kc = kernel_crop K kh h" and sc: "sc = source_crop K kh h"
      and exact: "(kh - 2 * kc) + K = (h - 2 * sc) + 1" "(kw - 2 * kc) + K = (w - 2 * sc) + 1"
      and pos: "0 < kh - 2 * kc" "0 < kw - 2 * kc"
  shows "\<exists>out. apply_kernels mul fsum kernel0 src = Inr out \<and>
           shape out = [bs, ci, kh - 2 * kc, kw - 2 * kc] \<and>
           (\<forall>b<bs. \<forall>c<ci. \<forall>i<kh - 2 * kc. \<forall>j<kw - 2 * kc.
              entry out [b, c, i, j] =
                fsum (map (\<lambda>q. mul (entry kernel0 [b, q, i + kc, j + kc])
                                   (entry src [b, c, i + sc + q div K, j + sc + q mod K]))
                        [0..<K * K]))"
proof (cases "kh + K > h + 1")
  case True
  then have sc0: "sc = 0" by (simp add: sc source_crop_def)
  have run: "apply_kernels mul fsum kernel0 src =
      weighted_sum mul fsum bs ci (kh - 2 * kc) (kw - 2 * kc) K
        (if 0 < kc then crop2d (int kc) kernel0 else kernel0) src"
    using apply_kernels_kernel_branch[OF k n] True by (simp add: isqrt_square kc Let_def)
  define k1 where "k1 = (if 0 < kc then crop2d (int kc) kernel0 else kernel0)"
  have k1: "shape k1 = [bs, K * K, kh - 2 * kc, kw - 2 * kc]"
    using crop2d_4[OF k, of "int kc"] k by (auto simp: k1_def)
  have k1at: "entry k1 [b, q, i, j] = entry kernel0 [b, q, i + kc, j + kc]"
    if "b < bs" "q < K * K" "i < kh - 2 * kc" "j < kw - 2 * kc" for b q i j
    using crop2d_4[OF k, of "int kc"] that by (auto simp: k1_def)
  from weighted_sum_entries[OF k1 n, of mul fsum] exact pos sc0
  obtain out where out: "weighted_sum mul fsum bs ci (kh - 2 * kc) (kw - 2 * kc) K k1 src = Inr out"
      "shape out = [bs, ci, kh - 2 * kc, kw - 2 * kc]"
      and outat: "\<And>b c i j. b < bs \<Longrightarrow> c < ci \<Longrightarrow> i < kh - 2 * kc \<Longrightarrow> j < kw - 2 * kc \<Longrightarrow>
              entry out [b, c, i, j] =
                fsum (map (\<lambda>q. mul (entry k1 [b, q, i, j])
                                   (entry src [b, c, i + q div K, j + q mod K])) [0..<K * K])"
    by auto
  have "entry out [b, c, i, j] =
          fsum (map (\<lambda>q. mul (entry kernel0 [b, q, i + kc, j + kc])
                             (entry src [b, c, i + sc + q div K, j + sc + q mod K]))
                  [0..<K * K])"
    if "b < bs" "c < ci" "i < kh - 2 * kc" "j < kw - 2 * kc" for b c i j
  proof -
    have "map (\<lambda>q. mul (entry k1 [b, q, i, j]) (entry src [b, c, i + q div K, j + q mod K]))
            [0..<K * K]
        = map (\<lambda>q. mul (entry kernel0 [b, q, i + kc, j + kc])
                       (entry src [b, c, i + sc + q div K, j + sc + q mod K])) [0..<K * K]"
      by (rule map_cong[OF refl]) (use k1at that sc0 in simp)
    then show ?thesis by (simp only: outat[OF that])
  qed
  then show ?thesis using run out unfolding k1_def by auto
next
  case False
  then have kc0: "kc = 0" by (simp add: kc kernel_crop_def)
  have run: "apply_kernels mul fsum kernel0 src =
      weighted_sum mul fsum bs ci kh kw K kernel0 (if 0 < sc then crop2d (int sc) src else src)"
    using apply_kernels_source_branch[OF k n] False by (simp add: isqrt_square sc Let_def)
  define n1 where "n1 = (if 0 < sc then crop2d (int sc) src else src)"
  have n1: "shape n1 = [bs, ci, h - 2 * sc, w - 2 * sc]"
    using crop2d_4[OF n, of "int sc"] n by (auto simp: n1_def)
  have n1at: "entry n1 [b, c, i, j] = entry src [b, c, i + sc, j + sc]"
    if "b < bs" "c < ci" "i < h - 2 * sc" "j < w - 2 * sc" for b c i j
    using crop2d_4[OF n, of "int sc"] that by (auto simp: n1_def)
  from weighted_sum_entries[OF k n1, of mul fsum] exact pos kc0
  obtain out where out: "weighted_sum mul fsum bs ci kh kw K kernel0 n1 = Inr out"
      "shape out = [bs, ci, kh, kw]"
      and outat: "\<And>b c i j. b < bs \<Longrightarrow> c < ci \<Longrightarrow> i < kh \<Longrightarrow> j < kw \<Longrightarrow>
              entry out [b, c, i, j] =
                fsum (map (\<lambda>q. mul (entry kernel0 [b, q, i, j])
                                   (entry n1 [b, c, i + q div K, j + q mod K])) [0..<K * K])"
    by auto
  have "entry out [b, c, i, j] =
          fsum (map (\<lambda>q. mul (entry kernel0 [b, q, i + kc, j + kc])
                             (entry src [b, c, i + sc + q div K, j + sc + q mod K]))
                  [0..<K * K])"
    if b: "b < bs" and c: "c < ci" and i: "i < kh - 2 * kc" and j: "j < kw - 2 * kc" for b c i j
  proof -
    have ij: "i < kh" "j < kw" using i j kc0 by auto
    have "entry n1 [b, c, i + q div K, j + q mod K] = entry src [b, c, i + sc + q div K, j + sc + q mod K]"
      if q: "q < K * K" for q
    proof -
      have K0: "0 < K" using q by (cases K) auto
      have u: "q div K < K" using q K0 by (simp add: less_mult_imp_div_less)
      have v: "q mod K < K" using K0 by simp
      have "i + q div K < h - 2 * sc" "j + q mod K < w - 2 * sc"
        using exact ij kc0 u v by linarith+
      then show ?thesis using n1at[OF b c] by (simp add: ac_simps)
    qed
    then have "map (\<lambda>q. mul (entry kernel0 [b, q, i, j])
                            (entry n1 [b, c, i + q div K, j + q mod K])) [0..<K * K]
        = map (\<lambda>q. mul (entry kernel0 [b, q, i + kc, j + kc])
                       (entry src [b, c, i + sc + q div K, j + sc + q mod K])) [0..<K * K]"
      using kc0 by (intro map_cong[OF refl]) simp
    then show ?thesis by (simp only: outat[OF b c ij])
  qed
  then show ?thesis using run out kc0 unfolding n1_def by auto
qed

subsection \<open>The weighted sum\<close>

text \<open>
  Claim C1 says that each output entry equals the exact weighted sum of its neighbourhood.
  The program computes on floating-point tensors, and each product and each addition is
  rounded.  In single precision, the weights \<open>1, 1, 0, 0\<close> on the neighbourhood
  \<open>2\<^sup>2\<^sup>4, 1, 0, 0\<close> give \<open>16777216\<close>, whatever the order of the additions (only one of
  them has two non-zero operands), where the exact weighted sum is \<open>16777217\<close>.
\<close>

theorem apply_kernels_exact_sum_counterexample:
  "apply_kernels (fmul 24) (fsum_left 24)
      \<lparr>shape = [1, 4, 1, 1], elems = [(1, 0), (1, 0), (0, 0), (0, 0)]\<rparr>
      \<lparr>shape = [1, 1, 2, 2], elems = [(16777216, 0), (1, 0), (0, 0), (0, 0)]\<rparr>
     = Inr \<lparr>shape = [1, 1, 1, 1], elems = [(8388608, 1)]\<rparr> \<and>
   fval (8388608, 1) = 16777216 \<and>
   fval (1, 0) * fval (16777216, 0) + fval (1, 0) * fval (1, 0)
     + fval (0, 0) * fval (0, 0) + fval (0, 0) * fval (0, 0) = 16777217"
proof -
  have "apply_kernels (fmul 24) (fsum_left 24)
      \<lparr>shape = [1, 4, 1, 1], elems = [(1, 0), (1, 0), (0, 0), (0, 0)]\<rparr>
      \<lparr>shape = [1, 1, 2, 2], elems = [(16777216, 0), (1, 0), (0, 0), (0, 0)]\<rparr>
     = Inr \<lparr>shape = [1, 1, 1, 1], elems = [(8388608, 1)]\<rparr>"
    by code_simp
  then show ?thesis by (simp add: fval_def)
qed

text \<open>
  Claim C1, amended.  For a kernel of shape \<open>(bs, K\<^sup>2, kh, kw)\<close> and a source of shape
  \<open>(bs, ci, h, w)\<close> that fit each other after the symmetric crop (the cropped kernel
  height plus \<open>K - 1\<close> is the cropped source height, and likewise for the widths, with a
  non-empty output), \<open>apply_kernels\<close> returns a tensor of shape \<open>(bs, ci, kh, kw)\<close> (the
  cropped kernel extent) whose entry at \<open>(b, c, i, j)\<close> is the library's sum, in the
  arithmetic of the tensors, of the \<open>K\<^sup>2\<close> products of the kernel entry \<open>(b, q, i, j)\<close>
  with the source entry \<open>(b, c, i + q div K, j + q mod K)\<close>, for \<open>q = 0, \<dots>, K\<^sup>2 - 1\<close>,
  both read in the cropped tensors.  It is the exact weighted sum where the arithmetic
  does not round.
\<close>

theorem apply_kernels_rounded_weighted_sum:
  fixes kernel0 src :: "'a tensor"
  assumes k: "shape kernel0 = [bs, K * K, kh, kw]"
      and n: "shape src = [bs, ci, h, w]"
      and kc: "kc = kernel_crop K kh h" and sc: "sc = source_crop K kh h"
      and exact: "(kh - 2 * kc) + K = (h - 2 * sc) + 1" "(kw - 2 * kc) + K = (w - 2 * sc) + 1"
      and pos: "0 < kh - 2 * kc" "0 < kw - 2 * kc"
  shows "\<exists>out. apply_kernels mul fsum kernel0 src = Inr out \<and>
           shape out = [bs, ci, kh - 2 * kc, kw - 2 * kc] \<and>
           (\<forall>b<bs. \<forall>c<ci. \<forall>i<kh - 2 * kc. \<forall>j<kw - 2 * kc.
              entry out [b, c, i, j] =
                fsum (map (\<lambda>q. mul (entry kernel0 [b, q, i + kc, j + kc])
                                   (entry src [b, c, i + sc + q div K, j + sc + q mod K]))
                        [0..<K * K]))"
  using assms by (rule apply_kernels_entries_core)

theorem apply_kernels_rounded_weighted_sum_witness:
  "shape \<lparr>shape = [1, 4, 1, 1], elems = [(1, 0), (2, 0), (3, 0), (4, 0)]\<rparr> = [1, 2 * 2, 1, 1] \<and>
   shape \<lparr>shape = [1, 1, 4, 4], elems = map (\<lambda>n. (int n, 0)) [1..<17]\<rparr> = [1, 1, 4, 4] \<and>
   kernel_crop 2 1 4 = 0 \<and> source_crop 2 1 4 = 1 \<and>
   (\<exists>out. apply_kernels (fmul 24) (fsum_left 24)
              \<lparr>shape = [1, 4, 1, 1], elems = [(1, 0), (2, 0), (3, 0), (4, 0)]\<rparr>
              \<lparr>shape = [1, 1, 4, 4], elems = map (\<lambda>n. (int n, 0)) [1..<17]\<rparr> = Inr out \<and>
          shape out = [1, 1, 1, 1] \<and> entry out [0, 0, 0, 0] = (94, 0))"
proof -
  let ?k = "\<lparr>shape = [1, 4, 1, 1], elems = [(1, 0), (2, 0), (3, 0), (4 :: int, 0 :: int)]\<rparr>"
  let ?s = "\<lparr>shape = [1, 1, 4, 4], elems = map (\<lambda>n. (int n, 0 :: int)) [1..<17]\<rparr>"
  have kc: "(0::nat) = kernel_crop 2 1 4" and sc: "(1::nat) = source_crop 2 1 4"
    by (simp_all add: kernel_crop_def source_crop_def)
  have v: "fsum_left 24 (map (\<lambda>q. fmul 24 (entry ?k [0, q, 0 + 0, 0 + 0])
                                   (entry ?s [0, 0, 0 + 1 + q div 2, 0 + 1 + q mod 2]))
                        [0..<2 * 2]) = (94, 0)"
    by code_simp
  have "\<exists>out. apply_kernels (fmul 24) (fsum_left 24) ?k ?s = Inr out \<and>
           shape out = [1, 1, 1 - 2 * 0, 1 - 2 * 0] \<and>
           (\<forall>b<1. \<forall>c<1. \<forall>i<1 - 2 * 0. \<forall>j<1 - 2 * 0.
              entry out [b, c, i, j] =
                fsum_left 24 (map (\<lambda>q. fmul 24 (entry ?k [b, q, i + 0, j + 0])
                                   (entry ?s [b, c, i + 1 + q div 2, j + 1 + q mod 2]))
                        [0..<2 * 2]))"
    by (rule apply_kernels_rounded_weighted_sum[of ?k 1 2 1 1 ?s 1 4 4 0 1, OF _ _ kc sc])
       simp_all
  then obtain out where out: "apply_kernels (fmul 24) (fsum_left 24) ?k ?s = Inr out"
      "shape out = [1, 1, 1 - 2 * 0, 1 - 2 * 0]"
    and outat: "\<forall>b<1. \<forall>c<1. \<forall>i<1 - 2 * 0. \<forall>j<1 - 2 * 0.
              entry out [b, c, i, j] =
                fsum_left 24 (map (\<lambda>q. fmul 24 (entry ?k [b, q, i + 0, j + 0])
                                   (entry ?s [b, c, i + 1 + q div 2, j + 1 + q mod 2]))
                        [0..<2 * 2])"
    by blast
  have "entry out [0, 0, 0, 0] = (94, 0)"
    using outat[rule_format, of 0 0 0 0] v by simp
  with out have "\<exists>out. apply_kernels (fmul 24) (fsum_left 24) ?k ?s = Inr out \<and>
          shape out = [1, 1, 1, 1] \<and> entry out [0, 0, 0, 0] = (94, 0)"
    by simp
  then show ?thesis using kc sc by simp
qed

subsection \<open>Convex combinations\<close>





subsection \<open>When the kernel application succeeds\<close>

lemma length_elems_tabulate: "length (elems (tabulate sh f)) = numel sh"
  by (simp add: tabulate_def length_indices)

lemma view_tabulate:
  "view sh' (tabulate sh f) =
     (if numel sh' = numel sh then Inr \<lparr>shape = sh', elems = elems (tabulate sh f)\<rparr>
      else Inl RuntimeError)"
  by (simp add: view_def length_elems_tabulate)

lemma weighted_sum_result:
  fixes k1 n1 :: "'a tensor"
  assumes k: "shape k1 = [kb, kd, kh, kw]" and n: "shape n1 = [bs, ci, h, w]"
  shows "(tiles_fit kb kd bs ci kh kw K h w \<longrightarrow>
            (\<exists>out. weighted_sum mul fsum bs ci kh kw K k1 n1 = Inr out \<and> shape out = [bs, ci, kh, kw]))
       \<and> (\<not> tiles_fit kb kd bs ci kh kw K h w \<longrightarrow>
            weighted_sum mul fsum bs ci kh kw K k1 n1 = Inl RuntimeError)"
proof -
  define k2 where "k2 = tabulate [kb, kh, kw, kd]
      (\<lambda>idx. entry k1 (map snd (sort_key fst (zip [0, 2, 3, 1 :: nat] idx))))"
  have p: "permute [0, 2, 3, 1] k1 = Inr k2"
    using k by (simp add: permute_def k2_def)
  have v1: "view [bs, 1, kh, kw, K * K] k2 =
     (if numel [bs, 1, kh, kw, K * K] = numel [kb, kh, kw, kd]
      then Inr \<lparr>shape = [bs, 1, kh, kw, K * K], elems = elems k2\<rparr> else Inl RuntimeError)"
    unfolding k2_def view_tabulate by (rule refl)
  show ?thesis
  proof (cases "numel [bs, 1, kh, kw, K * K] = numel [kb, kh, kw, kd]")
    case False
    then show ?thesis
      by (simp only: weighted_sum_def p v1 ebind_Inr ebind_Inl tiles_fit_def if_False) simp
  next
    case c1: True
    show ?thesis
    proof (cases "K \<le> h")
      case False
      then have "unfold 2 K 1 n1 = Inl RuntimeError" using n by (simp add: unfold_def)
      then show ?thesis using False c1
        by (simp only: weighted_sum_def p v1 ebind_Inr ebind_Inl tiles_fit_def if_True) simp
    next
      case c2: True
      define t1 where "t1 = tabulate [bs, ci, h - K + 1, w, K]
           (\<lambda>idx. entry n1 ((butlast idx)[2 := idx ! 2 * 1 + last idx]))"
      have u1: "unfold 2 K 1 n1 = Inr t1" using n c2 by (simp add: unfold_def t1_def)
      show ?thesis
      proof (cases "K \<le> w")
        case False
        then have "unfold 3 K 1 t1 = Inl RuntimeError" by (simp add: unfold_def t1_def shape_tabulate)
        then show ?thesis using False c1
          by (simp only: weighted_sum_def p v1 u1 ebind_Inr ebind_Inl tiles_fit_def if_True) simp
      next
        case c3: True
        define t2 where "t2 = tabulate [bs, ci, h - K + 1, w - K + 1, K, K]
           (\<lambda>idx. entry t1 ((butlast idx)[3 := idx ! 3 * 1 + last idx]))"
        have u2: "unfold 3 K 1 t1 = Inr t2"
          using c3 by (simp add: unfold_def t1_def t2_def shape_tabulate)
        have v2: "view [bs, ci, kh, kw, K * K] t2 =
          (if numel [bs, ci, kh, kw, K * K] = numel [bs, ci, h - K + 1, w - K + 1, K, K]
           then Inr \<lparr>shape = [bs, ci, kh, kw, K * K], elems = elems t2\<rparr> else Inl RuntimeError)"
          unfolding t2_def view_tabulate by (rule refl)
        show ?thesis
        proof (cases "numel [bs, ci, kh, kw, K * K] = numel [bs, ci, h - K + 1, w - K + 1, K, K]")
          case False
          then show ?thesis using c1
            by (simp only: weighted_sum_def p v1 u1 u2 v2 ebind_Inr ebind_Inl tiles_fit_def if_True if_False) simp
        next
          case c4: True
          have fit: "tiles_fit kb kd bs ci kh kw K h w"
            using c1 c2 c3 c4 by (simp add: tiles_fit_def)
          define k3 where "k3 = \<lparr>shape = [bs, 1, kh, kw, K * K], elems = elems k2\<rparr>"
          define tiles where "tiles = \<lparr>shape = [bs, ci, kh, kw, K * K], elems = elems t2\<rparr>"
          obtain weighted where w: "pointwise mul k3 tiles = Inr weighted"
            "shape weighted = [bs, ci, kh, kw, K * K]"
            using pointwise_kernel_tiles[of k3 bs kh kw "K * K" tiles ci mul]
            by (simp add: k3_def tiles_def shape_tabulate)
          obtain out where out: "sum_dim fsum 4 weighted = Inr out" "shape out = [bs, ci, kh, kw]"
            using sum_dim_4[OF w(2)] by (simp add: shape_tabulate)
          have v1': "view [bs, 1, kh, kw, K * K] k2 = Inr k3"
            using c1 v1 by (simp add: k3_def)
          have v2': "view [bs, ci, kh, kw, K * K] t2 = Inr tiles"
            using c4 v2 by (simp add: tiles_def)
          have "weighted_sum mul fsum bs ci kh kw K k1 n1 = Inr out"
            by (simp only: weighted_sum_def p v1' u1 u2 v2' w(1) out(1) ebind_Inr)
          then show ?thesis using fit out(2) by simp
        qed
      qed
    qed
  qed
qed

lemma apply_kernels_result:
  fixes kernel0 src :: "'a tensor"
  assumes k: "shape kernel0 = [kb, kd, kh, kw]" and n: "shape src = [bs, ci, h, w]"
    and kc: "kc = kernel_crop (isqrt kd) kh h" and sc: "sc = source_crop (isqrt kd) kh h"
  shows "(tiles_fit kb kd bs ci (kh - 2 * kc) (kw - 2 * kc) (isqrt kd) (h - 2 * sc) (w - 2 * sc) \<longrightarrow>
            (\<exists>out. apply_kernels mul fsum kernel0 src = Inr out \<and>
                   shape out = [bs, ci, kh - 2 * kc, kw - 2 * kc]))
       \<and> (\<not> tiles_fit kb kd bs ci (kh - 2 * kc) (kw - 2 * kc) (isqrt kd) (h - 2 * sc) (w - 2 * sc) \<longrightarrow>
            apply_kernels mul fsum kernel0 src = Inl RuntimeError)"
proof (cases "kh + isqrt kd > h + 1")
  case True
  then have sc0: "sc = 0" by (simp add: sc source_crop_def)
  define k1 where "k1 = (if 0 < kc then crop2d (int kc) kernel0 else kernel0)"
  have run: "apply_kernels mul fsum kernel0 src =
      weighted_sum mul fsum bs ci (kh - 2 * kc) (kw - 2 * kc) (isqrt kd) k1 src"
    using apply_kernels_kernel_branch[OF k n True] by (simp add: kc Let_def k1_def)
  have k1: "shape k1 = [kb, kd, kh - 2 * kc, kw - 2 * kc]"
    using crop2d_4[OF k, of "int kc"] k by (auto simp: k1_def)
  show ?thesis
    using weighted_sum_result[OF k1 n, of "isqrt kd"] unfolding run sc0 by simp
next
  case False
  then have kc0: "kc = 0" by (simp add: kc kernel_crop_def)
  define n1 where "n1 = (if 0 < sc then crop2d (int sc) src else src)"
  have run: "apply_kernels mul fsum kernel0 src = weighted_sum mul fsum bs ci kh kw (isqrt kd) kernel0 n1"
    using apply_kernels_source_branch[OF k n False] by (simp add: sc Let_def n1_def)
  have n1: "shape n1 = [bs, ci, h - 2 * sc, w - 2 * sc]"
    using crop2d_4[OF n, of "int sc"] n by (auto simp: n1_def)
  show ?thesis
    using weighted_sum_result[OF k n1, of "isqrt kd"] unfolding run kc0 by simp
qed

lemma tiles_fit_nonempty:
  assumes fit: "tiles_fit kb kd bs ci kh kw K h w" and pos: "0 < bs" "0 < ci" "0 < K"
  shows "kh * kw = (h - K + 1) * (w - K + 1)" "bs * (K * K) = kb * kd" "K \<le> h" "K \<le> w"
proof -
  define A where "A = (h - K + 1) * (w - K + 1)"
  define B where "B = kh * kw"
  have A0: "0 < A" by (simp add: A_def)
  from fit have a: "bs * (kh * (kw * (K * K))) = kb * (kh * (kw * kd))"
    and b: "bs * (ci * (kh * (kw * (K * K)))) = bs * (ci * ((h - K + 1) * ((w - K + 1) * (K * K))))"
    and le: "K \<le> h" "K \<le> w"
    unfolding tiles_fit_def numel_def by simp_all
  from le show "K \<le> h" "K \<le> w" .
  have "(bs * ci * (K * K)) * B = (bs * ci * (K * K)) * A"
    using b unfolding A_def B_def by (simp only: mult_ac)
  moreover have "0 < bs * ci * (K * K)" using pos by simp
  ultimately have AB: "B = A" by simp
  then show "kh * kw = (h - K + 1) * (w - K + 1)" by (simp add: A_def B_def)
  have "B * (bs * (K * K)) = B * (kb * kd)"
    using a unfolding B_def by (simp only: mult_ac)
  then show "bs * (K * K) = kb * kd" using A0 AB by simp
qed

lemma sqrt_upto_pos: "0 < n \<Longrightarrow> 0 < m \<Longrightarrow> 0 < sqrt_upto n m"
proof (induction m)
  case 0 then show ?case by simp
next
  case (Suc m) then show ?case by (cases m) auto
qed

lemma isqrt_pos: "0 < n \<Longrightarrow> 0 < isqrt n"
  by (simp add: isqrt_def sqrt_upto_pos)

subsection \<open>Kernel depth and batch size\<close>

lemma perfect_square_iff: "perfect_square n \<longleftrightarrow> (\<exists>K. n = K * K)"
proof
  assume "perfect_square n"
  then have "n = isqrt n * isqrt n" by (simp add: perfect_square_def)
  then show "\<exists>K. n = K * K" ..
next
  assume "\<exists>K. n = K * K"
  then show "perfect_square n" by (auto simp: perfect_square_def isqrt_square)
qed

text \<open>
  Claim C7 says that \<open>apply_kernels\<close> fails whenever the kernel depth is not a perfect
  square, or whenever the batch sizes of kernel and source differ.  The reshapes only
  compare element counts: a kernel of shape \<open>(1, 8, 1, 1)\<close> with a source of shape
  \<open>(2, 1, 2, 2)\<close> passes both of them and a result is returned.
\<close>

theorem apply_kernels_depth_batch_mismatch_counterexample:
  "apply_kernels (*) sum_list \<lparr>shape = [1, 8, 1, 1], elems = [1, 2, 3, 4, 5, 6, 7, 8 :: int]\<rparr>
                 \<lparr>shape = [2, 1, 2, 2], elems = [1, 2, 3, 4, 5, 6, 7, 8]\<rparr>
     = Inr \<lparr>shape = [2, 1, 1, 1], elems = [30, 174]\<rparr>"
  by code_simp

text \<open>
  Claim C7, amended.  Let \<open>K\<close> be the integer square root of the kernel depth \<open>kd\<close>,
  \<open>kb\<close> the batch size of the kernel and \<open>bs\<close> that of the source.  Whenever
  \<open>bs * K\<^sup>2 \<noteq> kb * kd\<close>, and the source has at least one batch entry and one channel or
  the cropped kernel has a non-empty spatial extent, \<open>apply_kernels\<close> fails with the
  library's shape error.  This covers every kernel depth that is not a perfect square
  with equal batch sizes, every positive perfect square with different batch sizes, and
  every combination of the two defects in which the element counts do not happen to agree.
\<close>

theorem apply_kernels_rejects_depth_or_batch:
  fixes kernel0 src :: "'a tensor"
  assumes k: "shape kernel0 = [kb, kd, kh, kw]" and n: "shape src = [bs, ci, h, w]"
    and mismatch: "bs * (isqrt kd * isqrt kd) \<noteq> kb * kd"
    and nonempty: "(0 < bs \<and> 0 < ci) \<or>
                   (2 * kernel_crop (isqrt kd) kh h < kh \<and> 2 * kernel_crop (isqrt kd) kh h < kw)"
  shows "apply_kernels mul fsum kernel0 src = Inl RuntimeError"
proof (rule ccontr)
  define K where "K = isqrt kd"
  define kc where "kc = kernel_crop K kh h"
  define sc where "sc = source_crop K kh h"
  assume "apply_kernels mul fsum kernel0 src \<noteq> Inl RuntimeError"
  then have fit: "tiles_fit kb kd bs ci (kh - 2 * kc) (kw - 2 * kc) K (h - 2 * sc) (w - 2 * sc)"
    using apply_kernels_result[OF k n refl refl] unfolding K_def kc_def sc_def by blast
  have kd0: "0 < kd"
  proof (rule gr0I)
    assume "kd = 0"
    then show False using mismatch by (simp add: isqrt_def)
  qed
  have K0: "0 < K" unfolding K_def using kd0 by (rule isqrt_pos)
  from nonempty show False
  proof
    assume "0 < bs \<and> 0 < ci"
    then have "bs * (K * K) = kb * kd"
      using tiles_fit_nonempty(2)[OF fit _ _ K0] by blast
    then show False using mismatch by (simp add: K_def)
  next
    assume "2 * kernel_crop (isqrt kd) kh h < kh \<and> 2 * kernel_crop (isqrt kd) kh h < kw"
    then have B0: "0 < (kh - 2 * kc) * (kw - 2 * kc)"
      by (simp add: kc_def K_def)
    from fit have "bs * ((kh - 2 * kc) * ((kw - 2 * kc) * (K * K)))
                     = kb * ((kh - 2 * kc) * ((kw - 2 * kc) * kd))"
      unfolding tiles_fit_def numel_def by simp
    then have "((kh - 2 * kc) * (kw - 2 * kc)) * (bs * (K * K))
                 = ((kh - 2 * kc) * (kw - 2 * kc)) * (kb * kd)"
      by (simp only: mult_ac)
    then have "bs * (K * K) = kb * kd" using B0 by simp
    then show False using mismatch by (simp add: K_def)
  qed
qed

theorem apply_kernels_rejects_depth_or_batch_witness:
  "shape \<lparr>shape = [1, 2, 1, 1], elems = [1, 2 :: int]\<rparr> = [1, 2, 1, 1] \<and>
   shape \<lparr>shape = [1, 1, 1, 1], elems = [5 :: int]\<rparr> = [1, 1, 1, 1] \<and>
   (0::nat) < 1 \<and> \<not> perfect_square 2 \<and> (1::nat) * (isqrt 2 * isqrt 2) \<noteq> 1 * 2 \<and>
   apply_kernels (*) sum_list \<lparr>shape = [1, 2, 1, 1], elems = [1, 2 :: int]\<rparr>
                 \<lparr>shape = [1, 1, 1, 1], elems = [5]\<rparr> = Inl RuntimeError \<and>
   shape \<lparr>shape = [2, 1, 1, 1], elems = [1, 2 :: int]\<rparr> = [2, 1, 1, 1] \<and>
   perfect_square 1 \<and> (1::nat) * (isqrt 1 * isqrt 1) \<noteq> 2 * 1 \<and>
   apply_kernels (*) sum_list \<lparr>shape = [2, 1, 1, 1], elems = [1, 2 :: int]\<rparr>
                 \<lparr>shape = [1, 1, 1, 1], elems = [5]\<rparr> = Inl RuntimeError \<and>
   shape \<lparr>shape = [3, 2, 1, 1], elems = [1, 2, 3, 4, 5, 6 :: int]\<rparr> = [3, 2, 1, 1] \<and>
   (1::nat) * (isqrt 2 * isqrt 2) \<noteq> 3 * 2 \<and>
   apply_kernels (*) sum_list \<lparr>shape = [3, 2, 1, 1], elems = [1, 2, 3, 4, 5, 6 :: int]\<rparr>
                 \<lparr>shape = [1, 1, 1, 1], elems = [5]\<rparr> = Inl RuntimeError"
proof -
  have i: "isqrt 2 = 1" "isqrt 1 = 1"
    by (simp_all add: isqrt_def eval_nat_numeral)
  have sq: "\<not> perfect_square 2" "perfect_square 1"
    by (simp_all add: perfect_square_def isqrt_def eval_nat_numeral)
  have a: "apply_kernels (*) sum_list \<lparr>shape = [1, 2, 1, 1], elems = [1, 2 :: int]\<rparr>
                 \<lparr>shape = [1, 1, 1, 1], elems = [5]\<rparr> = Inl RuntimeError"
    by (rule apply_kernels_rejects_depth_or_batch[of _ 1 2 1 1 _ 1 1 1 1]) (use i in simp_all)
  have b: "apply_kernels (*) sum_list \<lparr>shape = [2, 1, 1, 1], elems = [1, 2 :: int]\<rparr>
                 \<lparr>shape = [1, 1, 1, 1], elems = [5]\<rparr> = Inl RuntimeError"
    by (rule apply_kernels_rejects_depth_or_batch[of _ 2 1 1 1 _ 1 1 1 1]) (use i in simp_all)
  have c: "apply_kernels (*) sum_list \<lparr>shape = [3, 2, 1, 1], elems = [1, 2, 3, 4, 5, 6 :: int]\<rparr>
                 \<lparr>shape = [1, 1, 1, 1], elems = [5]\<rparr> = Inl RuntimeError"
    by (rule apply_kernels_rejects_depth_or_batch[of _ 3 2 1 1 _ 1 1 1 1]) (use i in simp_all)
  show ?thesis using a b c sq i by simp
qed

subsection \<open>Crops that are not exact\<close>

text \<open>
  Claim C9 says that \<open>apply_kernels\<close> raises a shape error whenever \<open>kh + K - 1\<close> and
  \<open>h\<close> differ in parity, and returns a result only when the symmetric crop is exact.
  The crop is computed from the heights alone and the reshape compares element counts: a
  kernel of spatial size \<open>2 \<times> 1\<close> on a source of size \<open>1 \<times> 2\<close> (\<open>K = 1\<close>, so
  \<open>kh + K - 1 = 2\<close> against \<open>h = 1\<close>) has as many tiles as kernel positions, and a
  result is returned.
\<close>

theorem apply_kernels_odd_crop_counterexample:
  "apply_kernels (*) sum_list \<lparr>shape = [1, 1, 2, 1], elems = [1, 2 :: int]\<rparr>
                 \<lparr>shape = [1, 1, 1, 2], elems = [5, 6]\<rparr>
     = Inr \<lparr>shape = [1, 1, 2, 1], elems = [5, 12]\<rparr>"
  by code_simp

text \<open>
  Claim C9, amended.  When kernel and source leave the same margin in both directions
  (\<open>w - kw = h - kh\<close>) and neither is empty in batch, channel or kernel depth: if
  \<open>kh + K - 1\<close> and \<open>h\<close> differ in parity, \<open>apply_kernels\<close> fails with the library's
  shape error and returns no result.
\<close>

theorem apply_kernels_rejects_odd_crop:
  fixes kernel0 src :: "'a tensor"
  assumes k: "shape kernel0 = [kb, kd, kh, kw]" and n: "shape src = [bs, ci, h, w]"
    and margins: "kw + h = kh + w"
    and pos: "0 < bs" "0 < ci" "0 < kd"
    and odd: "even (kh + isqrt kd - 1) \<longleftrightarrow> odd h"
  shows "apply_kernels mul fsum kernel0 src = Inl RuntimeError"
proof (rule ccontr)
  define K where "K = isqrt kd"
  define kc where "kc = kernel_crop K kh h"
  define sc where "sc = source_crop K kh h"
  assume "apply_kernels mul fsum kernel0 src \<noteq> Inl RuntimeError"
  then have fit: "tiles_fit kb kd bs ci (kh - 2 * kc) (kw - 2 * kc) K (h - 2 * sc) (w - 2 * sc)"
    using apply_kernels_result[OF k n refl refl] unfolding K_def kc_def sc_def by blast
  have K0: "0 < K" unfolding K_def using pos by (simp add: isqrt_pos)
  from tiles_fit_nonempty[OF fit pos(1,2) K0]
  have pr: "(kh - 2 * kc) * (kw - 2 * kc) = (h - 2 * sc - K + 1) * (w - 2 * sc - K + 1)"
    and le: "K \<le> h - 2 * sc" "K \<le> w - 2 * sc" by auto
  define m where "m = kh + K - 1"
  have par: "even m \<longleftrightarrow> odd h" using odd by (simp add: K_def m_def)
  have m: "m + 1 = kh + K" using K0 by (simp add: m_def)
  have ne: "(A + 1) * (B + 1) \<noteq> A * B" for A B :: nat by simp
  show False
  proof (cases "kh + K > h + 1")
    case True
    then have sc0: "sc = 0" and kcd: "kc = (m - h) div 2"
      by (simp_all add: sc_def kc_def source_crop_def kernel_crop_def m_def)
    have hm: "h < m" using True m by linarith
    have "odd (m - h)" using par hm by (simp add: even_diff_nat)
    then have c: "2 * kc + 1 = m - h"
      unfolding kcd by (rule odd_two_times_div_two_succ)
    have a: "kh - 2 * kc = (h - K + 1) + 1" using c le sc0 hm m by linarith
    have b: "kw - 2 * kc = (w - K + 1) + 1" using c le sc0 hm m margins by linarith
    show False using pr ne[of "h - K + 1" "w - K + 1"] unfolding a b sc0 by simp
  next
    case False
    have mh: "m \<le> h" using False m by linarith
    have "h + 1 - kh - K = h - m" using m by linarith
    with False have kc0: "kc = 0" and scd: "sc = (h - m) div 2"
      by (simp_all add: sc_def kc_def source_crop_def kernel_crop_def)
    have "odd (h - m)" using par mh by (simp add: even_diff_nat)
    then have c: "2 * sc + 1 = h - m"
      unfolding scd by (rule odd_two_times_div_two_succ)
    have a: "h - 2 * sc - K + 1 = kh + 1" using c mh m by linarith
    have b: "w - 2 * sc - K + 1 = kw + 1" using c mh m margins by linarith
    show False using pr ne[of kh kw] unfolding a b kc0 by simp
  qed
qed

theorem apply_kernels_rejects_odd_crop_witness:
  "shape \<lparr>shape = [1, 1, 2, 3], elems = [1, 2, 3, 4, 5, 6 :: int]\<rparr> = [1, 1, 2, 3] \<and>
   shape \<lparr>shape = [1, 1, 3, 4], elems = [1, 2, 3, 4, 5, 6, 7, 8, 9, 10, 11, 12 :: int]\<rparr>
     = [1, 1, 3, 4] \<and>
   (3::nat) + 3 = 2 + 4 \<and> (0::nat) < 1 \<and> (even (2 + isqrt 1 - 1) \<longleftrightarrow> odd (3::nat)) \<and>
   apply_kernels (*) sum_list \<lparr>shape = [1, 1, 2, 3], elems = [1, 2, 3, 4, 5, 6 :: int]\<rparr>
       \<lparr>shape = [1, 1, 3, 4], elems = [1, 2, 3, 4, 5, 6, 7, 8, 9, 10, 11, 12]\<rparr>
     = Inl RuntimeError \<and>
   shape \<lparr>shape = [1, 1, 2, 2], elems = [1, 2, 3, 4 :: int]\<rparr> = [1, 1, 2, 2] \<and>
   shape \<lparr>shape = [1, 1, 1, 1], elems = [5 :: int]\<rparr> = [1, 1, 1, 1] \<and>
   (2::nat) + 1 = 2 + 1 \<and> (even (2 + isqrt 1 - 1) \<longleftrightarrow> odd (1::nat)) \<and>
   apply_kernels (*) sum_list \<lparr>shape = [1, 1, 2, 2], elems = [1, 2, 3, 4 :: int]\<rparr>
                 \<lparr>shape = [1, 1, 1, 1], elems = [5]\<rparr> = Inl RuntimeError"
proof -
  have i: "isqrt 1 = 1" by (simp add: isqrt_def)
  have a: "apply_kernels (*) sum_list \<lparr>shape = [1, 1, 2, 3], elems = [1, 2, 3, 4, 5, 6 :: int]\<rparr>
       \<lparr>shape = [1, 1, 3, 4], elems = [1, 2, 3, 4, 5, 6, 7, 8, 9, 10, 11, 12]\<rparr>
     = Inl RuntimeError"
    by (rule apply_kernels_rejects_odd_crop[of _ 1 1 2 3 _ 1 1 3 4]) (use i in simp_all)
  have b: "apply_kernels (*) sum_list \<lparr>shape = [1, 1, 2, 2], elems = [1, 2, 3, 4 :: int]\<rparr>
                 \<lparr>shape = [1, 1, 1, 1], elems = [5]\<rparr> = Inl RuntimeError"
    by (rule apply_kernels_rejects_odd_crop[of _ 1 1 2 2 _ 1 1 1 1]) (use i in simp_all)
  show ?thesis using a b i by simp
qed

subsection \<open>The smallest source\<close>

text \<open>
  Claim C6 says that a source plane of size \<open>K + 1\<close> in each spatial dimension gives an
  output of spatial size \<open>1 \<times> 1\<close>, and that any smaller source plane makes
  \<open>apply_kernels\<close> raise.  With \<open>K = 1\<close>: a \<open>2 \<times> 2\<close> source with a \<open>1 \<times> 1\<close> kernel
  has four tiles for one kernel position and the reshape fails, while a \<open>1 \<times> 1\<close>
  source, which is smaller than \<open>K + 1\<close>, gives a result.
\<close>

theorem apply_kernels_minimum_size_counterexample:
  "apply_kernels (*) sum_list \<lparr>shape = [1, 1, 1, 1], elems = [1 :: int]\<rparr>
                 \<lparr>shape = [1, 1, 2, 2], elems = [5, 6, 7, 8]\<rparr> = Inl RuntimeError \<and>
   apply_kernels (*) sum_list \<lparr>shape = [1, 1, 1, 1], elems = [1 :: int]\<rparr>
                 \<lparr>shape = [1, 1, 1, 1], elems = [5]\<rparr>
     = Inr \<lparr>shape = [1, 1, 1, 1], elems = [5]\<rparr>"
  by code_simp

text \<open>
  No kernel at all gives a \<open>1 \<times> 1\<close> output on a non-empty source of size \<open>K + 1\<close>:
  the output then has four spatial positions.
\<close>

lemma apply_kernels_next_size_not_1x1:
  fixes kernel0 src :: "'a tensor"
  assumes k: "shape kernel0 = [kb, kd, kh, kw]" and n: "shape src = [bs, ci, K + 1, K + 1]"
    and K: "isqrt kd = K" and pos: "0 < bs" "0 < ci" "0 < K"
    and run: "apply_kernels mul fsum kernel0 src = Inr out"
  shows "shape out \<noteq> [bs, ci, 1, 1]"
proof -
  define kc where "kc = kernel_crop K kh (K + 1)"
  define sc where "sc = source_crop K kh (K + 1)"
  have res: "(tiles_fit kb kd bs ci (kh - 2 * kc) (kw - 2 * kc) K (K + 1 - 2 * sc) (K + 1 - 2 * sc) \<longrightarrow>
            (\<exists>out. apply_kernels mul fsum kernel0 src = Inr out \<and>
                   shape out = [bs, ci, kh - 2 * kc, kw - 2 * kc]))
       \<and> (\<not> tiles_fit kb kd bs ci (kh - 2 * kc) (kw - 2 * kc) K (K + 1 - 2 * sc) (K + 1 - 2 * sc) \<longrightarrow>
            apply_kernels mul fsum kernel0 src = Inl RuntimeError)"
    using apply_kernels_result[OF k n refl refl] unfolding K kc_def sc_def .
  then have fit: "tiles_fit kb kd bs ci (kh - 2 * kc) (kw - 2 * kc) K (K + 1 - 2 * sc) (K + 1 - 2 * sc)"
    using run by auto
  with res run have sh: "shape out = [bs, ci, kh - 2 * kc, kw - 2 * kc]" by auto
  from tiles_fit_nonempty[OF fit pos]
  have eq: "(kh - 2 * kc) * (kw - 2 * kc) = (K + 1 - 2 * sc - K + 1) * (K + 1 - 2 * sc - K + 1)"
    and le: "K \<le> K + 1 - 2 * sc" by auto
  from le pos(3) have "sc = 0" by linarith
  with eq have "(kh - 2 * kc) * (kw - 2 * kc) = 4" by simp
  then show ?thesis using sh by auto
qed

text \<open>
  Claim C6, amended.  The minimum valid source size is \<open>K\<close>, not \<open>K + 1\<close>: for a
  source plane of size \<open>K\<close> in each spatial dimension (\<open>K > 0\<close>) and a kernel bank of
  spatial size \<open>1 \<times> 1\<close> with the same batch size, \<open>apply_kernels\<close> returns an output
  of spatial size \<open>1 \<times> 1\<close> per batch entry and channel; for a source plane smaller than
  \<open>K\<close> in either spatial dimension it fails with the library's shape error.
\<close>

theorem apply_kernels_minimum_size:
  fixes kernel0 src kernel1 src1 :: "'a tensor"
  shows "(shape kernel0 = [bs, K * K, 1, 1] \<and> shape src = [bs, ci, K, K] \<and> 0 < K \<longrightarrow>
            (\<exists>out. apply_kernels mul fsum kernel0 src = Inr out \<and> shape out = [bs, ci, 1, 1]))
       \<and> (shape kernel1 = [kb, kd, kh, kw] \<and> shape src1 = [bs1, ci1, h, w] \<and>
            (h < isqrt kd \<or> w < isqrt kd) \<longrightarrow>
            apply_kernels mul fsum kernel1 src1 = Inl RuntimeError)"
proof (intro conjI impI)
  assume a: "shape kernel0 = [bs, K * K, 1, 1] \<and> shape src = [bs, ci, K, K] \<and> 0 < K"
  then have kc: "kernel_crop K 1 K = 0" and sc: "source_crop K 1 K = 0"
    by (simp_all add: kernel_crop_def source_crop_def)
  have "tiles_fit bs (K * K) bs ci 1 1 K K K"
    by (simp add: tiles_fit_def numel_def)
  then show "\<exists>out. apply_kernels mul fsum kernel0 src = Inr out \<and> shape out = [bs, ci, 1, 1]"
    using apply_kernels_result[of kernel0 bs "K * K" 1 1 src bs ci K K, OF _ _ refl refl] a kc sc
    by (simp add: isqrt_square)
next
  assume a: "shape kernel1 = [kb, kd, kh, kw] \<and> shape src1 = [bs1, ci1, h, w] \<and>
            (h < isqrt kd \<or> w < isqrt kd)"
  define kc where "kc = kernel_crop (isqrt kd) kh h"
  define sc where "sc = source_crop (isqrt kd) kh h"
  have "\<not> tiles_fit kb kd bs1 ci1 (kh - 2 * kc) (kw - 2 * kc) (isqrt kd) (h - 2 * sc) (w - 2 * sc)"
    using a by (auto simp: tiles_fit_def)
  then show "apply_kernels mul fsum kernel1 src1 = Inl RuntimeError"
    using apply_kernels_result[of kernel1 kb kd kh kw src1 bs1 ci1 h w, OF _ _ refl refl] a
    unfolding kc_def sc_def by blast
qed

theorem apply_kernels_minimum_size_witness:
  "shape \<lparr>shape = [1, 4, 1, 1], elems = [1, 2, 3, 4 :: int]\<rparr> = [1, 2 * 2, 1, 1] \<and>
   shape \<lparr>shape = [1, 1, 2, 2], elems = [5, 6, 7, 8 :: int]\<rparr> = [1, 1, 2, 2] \<and>
   (\<exists>out. apply_kernels (*) sum_list \<lparr>shape = [1, 4, 1, 1], elems = [1, 2, 3, 4 :: int]\<rparr>
                 \<lparr>shape = [1, 1, 2, 2], elems = [5, 6, 7, 8]\<rparr> = Inr out \<and>
          shape out = [1, 1, 1, 1]) \<and>
   shape \<lparr>shape = [1, 1, 1, 2], elems = [5, 6 :: int]\<rparr> = [1, 1, 1, 2] \<and>
   (1::nat) < isqrt 4 \<and>
   apply_kernels (*) sum_list \<lparr>shape = [1, 4, 1, 1], elems = [1, 2, 3, 4 :: int]\<rparr>
                 \<lparr>shape = [1, 1, 1, 2], elems = [5, 6]\<rparr> = Inl RuntimeError"
proof -
  have i: "isqrt 4 = 2" using isqrt_square[of 2] by simp
  show ?thesis
    using apply_kernels_minimum_size[of
        "\<lparr>shape = [1, 4, 1, 1], elems = [1, 2, 3, 4 :: int]\<rparr>" 1 2
        "\<lparr>shape = [1, 1, 2, 2], elems = [5, 6, 7, 8]\<rparr>" 1 "(*)" sum_list
        "\<lparr>shape = [1, 4, 1, 1], elems = [1, 2, 3, 4 :: int]\<rparr>" 1 4 1 1
        "\<lparr>shape = [1, 1, 1, 2], elems = [5, 6]\<rparr>" 1 1 1 2] i
    by simp
qed

section \<open>Properties of model construction\<close>

lemma XtransNetwork_init_fails: "XtransNetwork_init depth0 width0 = Inl TypeError"
  by (simp add: XtransNetwork_init_def py_super_def)

lemma XtransNetwork_call_fails: "XtransNetwork_call params = Inl TypeError"
  by (simp add: XtransNetwork_call_def XtransNetwork_init_fails)

text \<open>
  Claim C10.  Constructing \<open>XtransNetwork\<close> raises for every choice of depth and width:
  \<open>XtransNetwork\<close> is not a subclass of \<open>BayerNetwork\<close>, so the \<open>super\<close> call that
  opens its \<open>__init__\<close> raises \<open>TypeError\<close>.  Hence the call with any keyword
  arguments fails, and so does \<open>get(params)\<close> whenever \<open>params\<close> names the model
  \<open>XtransNetwork\<close>.
\<close>

theorem XtransNetwork_cannot_be_constructed:
  "XtransNetwork_init depth0 width0 = Inl TypeError \<and>
   XtransNetwork_call params = Inl TypeError \<and>
   (map_of params ''model'' = Some (PyStr ''XtransNetwork'') \<longrightarrow>
      get others params = Inl TypeError)"
  by (simp add: XtransNetwork_init_fails XtransNetwork_call_fails get_def module_getattr_def)

theorem XtransNetwork_cannot_be_constructed_witness:
  "map_of [(''model'', PyStr ''XtransNetwork''), (''depth'', PyInt 3)] ''model''
     = Some (PyStr ''XtransNetwork'') \<and>
   get (\<lambda>_. None) [(''model'', PyStr ''XtransNetwork''), (''depth'', PyInt 3)] = Inl TypeError"
  using XtransNetwork_cannot_be_constructed[of "PyInt 3" "PyInt 64"
     "[(''model'', PyStr ''XtransNetwork''), (''depth'', PyInt 3)]" "\<lambda>_. None"]
  by simp

section \<open>Properties of the reconstruction\<close>

lemma upt_concat_blocks:
  "concat (map (\<lambda>i. map (\<lambda>k. i * N + k) [0..<N]) [0..<n]) = [0..<n * N]"
proof (induction n)
  case 0 then show ?case by simp
next
  case (Suc n)
  have e: "(\<lambda>k. n * N + k) = (\<lambda>k. k + n * N)" by (rule ext) simp
  have "map (\<lambda>k. n * N + k) [0..<N] = [n * N..<N + n * N]"
    unfolding e by (rule map_add_upt)
  moreover have "[0..<Suc n * N] = [0..<n * N] @ [n * N..<N + n * N]"
    using upt_add_eq_append[of 0 "n * N" N] by (simp add: add.commute)
  ultimately show ?case using Suc by simp
qed



lemma valid3 [simp]: "valid [a,b,c] [i,j,k] \<longleftrightarrow> i < a \<and> j < b \<and> k < c"
  by (auto simp: valid_def)

lemma map_flat_indices: "map (flat sh) (indices sh) = [0..<numel sh]"
proof (induction sh)
  case Nil then show ?case by (simp add: numel_def)
next
  case (Cons n sh)
  have "map (flat (n # sh)) (indices (n # sh))
        = concat (map (\<lambda>i. map (\<lambda>k. i * numel sh + k) (map (flat sh) (indices sh))) [0..<n])"
    by (simp add: map_concat comp_def)
  also have "\<dots> = [0..<n * numel sh]" unfolding Cons.IH by (rule upt_concat_blocks)
  finally show ?case by (simp add: numel_def)
qed

lemma tensor_eqI:
  assumes "wf a" "wf b" "shape a = shape b"
    and "\<And>idx. valid (shape a) idx \<Longrightarrow> entry a idx = entry b idx"
  shows "a = b"
proof -
  have len: "length (elems a) = length (elems b)" using assms(1-3) by (simp add: wf_def)
  have "elems a = elems b"
  proof (rule nth_equalityI[OF len])
    fix k assume k: "k < length (elems a)"
    then have kn: "k < numel (shape a)" using assms(1) by (simp add: wf_def)
    define idx where "idx = indices (shape a) ! k"
    have "idx \<in> set (indices (shape a))" using kn by (simp add: idx_def length_indices)
    then have v: "valid (shape a) idx" by (rule valid_indices)
    have "flat (shape a) idx = map (flat (shape a)) (indices (shape a)) ! k"
      using kn by (simp add: idx_def length_indices)
    then have f: "flat (shape a) idx = k" using kn by (simp add: map_flat_indices)
    from assms(4)[OF v] show "elems a ! k = elems b ! k"
      using f assms(3) by (simp add: entry_def)
  qed
  then show ?thesis using assms(3) by simp
qed



lemma sum_dim_1_4:
  assumes "shape t = [bs, C, H, W]"
  shows "\<exists>g. sum_dim fsum 1 t = Inr g \<and> shape g = [bs, H, W] \<and>
     (\<forall>b y x. b < bs \<longrightarrow> y < H \<longrightarrow> x < W \<longrightarrow>
        entry g [b, y, x] = fsum (map (\<lambda>c. entry t [b, c, y, x]) [0..<C]))"
  using assms by (simp add: sum_dim_def shape_tabulate at_tabulate)

lemma unfold_2_step2:
  assumes "shape t = [bs, H, W]" "2 \<le> W"
  shows "\<exists>r. unfold 2 2 2 t = Inr r \<and> shape r = [bs, H, (W - 2) div 2 + 1, 2] \<and>
     (\<forall>b y j dx. b < bs \<longrightarrow> y < H \<longrightarrow> j < (W - 2) div 2 + 1 \<longrightarrow> dx < 2 \<longrightarrow>
        entry r [b, y, j, dx] = entry t [b, y, j * 2 + dx])"
  using assms by (simp add: unfold_def shape_tabulate at_tabulate)

lemma unfold_1_step2:
  assumes "shape t = [bs, H, w, e]" "2 \<le> H"
  shows "\<exists>r. unfold 1 2 2 t = Inr r \<and> shape r = [bs, (H - 2) div 2 + 1, w, e, 2] \<and>
     (\<forall>b i j dx dy. b < bs \<longrightarrow> i < (H - 2) div 2 + 1 \<longrightarrow> j < w \<longrightarrow> dx < e \<longrightarrow> dy < 2 \<longrightarrow>
        entry r [b, i, j, dx, dy] = entry t [b, i * 2 + dy, j, dx])"
  using assms by (simp add: unfold_def shape_tabulate at_tabulate)

lemma permute_03412:
  assumes "shape t = [a, b, c, d, e]"
  shows "\<exists>r. permute [0, 3, 4, 1, 2] t = Inr r \<and> shape r = [a, d, e, b, c] \<and> wf r \<and>
     (\<forall>i j k l m. i < a \<longrightarrow> j < d \<longrightarrow> k < e \<longrightarrow> l < b \<longrightarrow> m < c \<longrightarrow>
        entry r [i, j, k, l, m] = entry t [i, l, m, j, k])"
  using assms by (simp add: permute_def shape_tabulate wf_tabulate at_tabulate)

lemma permute_03142:
  assumes "shape t = [a, b, c, d, e]"
  shows "\<exists>r. permute [0, 3, 1, 4, 2] t = Inr r \<and> shape r = [a, d, b, e, c] \<and> wf r \<and>
     (\<forall>i j k l m. i < a \<longrightarrow> j < d \<longrightarrow> k < b \<longrightarrow> l < e \<longrightarrow> m < c \<longrightarrow>
        entry r [i, j, k, l, m] = entry t [i, k, m, j, l])"
  using assms by (simp add: permute_def shape_tabulate wf_tabulate at_tabulate)

lemma slice_channel:
  assumes "shape t = [bs, C, h, w]" "a + n \<le> C"
  shows "shape (slice 1 (int a) (int (a + n)) t) = [bs, n, h, w] \<and>
     wf (slice 1 (int a) (int (a + n)) t) \<and>
     (\<forall>b c i j. b < bs \<longrightarrow> c < n \<longrightarrow> i < h \<longrightarrow> j < w \<longrightarrow>
        entry (slice 1 (int a) (int (a + n)) t) [b, c, i, j] = entry t [b, a + c, i, j])"
proof -
  have "py_slice C (int a) (int (a + n)) = (a, n)"
  proof -
    have "py_bound C (int a) = a" "py_bound C (int (a + n)) = a + n"
      using assms(2) by (auto simp: py_bound_def Let_def min_def max_def)
    then show ?thesis by (simp add: py_slice_def)
  qed
  then show ?thesis
    using assms(1) by (simp add: slice_def shape_tabulate wf_tabulate at_tabulate add.commute)
qed



lemma color_samples_of_entries:
  assumes m: "shape mosaic = [bs, C, 2 * h, 2 * w]" and pos: "0 < h" "0 < w"
  shows "\<exists>cs. color_samples_of fsum mosaic = Inr cs \<and> shape cs = [bs, 4, h, w] \<and> wf cs \<and>
     (\<forall>b dx dy i j. b < bs \<longrightarrow> dx < 2 \<longrightarrow> dy < 2 \<longrightarrow> i < h \<longrightarrow> j < w \<longrightarrow>
        entry cs [b, 2 * dx + dy, i, j]
          = fsum (map (\<lambda>c. entry mosaic [b, c, 2 * i + dy, 2 * j + dx]) [0..<C]))"
proof -
  from sum_dim_1_4[OF m] obtain g where
    g: "sum_dim fsum 1 mosaic = Inr g" "shape g = [bs, 2 * h, 2 * w]"
    and gat: "\<And>b y x. b < bs \<Longrightarrow> y < 2 * h \<Longrightarrow> x < 2 * w \<Longrightarrow>
        entry g [b, y, x] = fsum (map (\<lambda>c. entry mosaic [b, c, y, x]) [0..<C])"
    by blast
  have w2: "2 \<le> 2 * w" "(2 * w - 2) div 2 + 1 = w" and h2: "2 \<le> 2 * h" "(2 * h - 2) div 2 + 1 = h"
    using pos by auto
  from unfold_2_step2[OF g(2) w2(1)] obtain u1 where
    u1: "unfold 2 2 2 g = Inr u1" "shape u1 = [bs, 2 * h, w, 2]"
    and u1at: "\<And>b y j dx. b < bs \<Longrightarrow> y < 2 * h \<Longrightarrow> j < w \<Longrightarrow> dx < 2 \<Longrightarrow>
        entry u1 [b, y, j, dx] = entry g [b, y, j * 2 + dx]"
    unfolding w2(2) by blast
  from unfold_1_step2[OF u1(2) h2(1)] obtain u2 where
    u2: "unfold 1 2 2 u1 = Inr u2" "shape u2 = [bs, h, w, 2, 2]"
    and u2at: "\<And>b i j dx dy. b < bs \<Longrightarrow> i < h \<Longrightarrow> j < w \<Longrightarrow> dx < 2 \<Longrightarrow> dy < 2 \<Longrightarrow>
        entry u2 [b, i, j, dx, dy] = entry u1 [b, i * 2 + dy, j, dx]"
    unfolding h2(2) by blast
  from permute_03412[OF u2(2)] obtain cs5 where
    cs5: "permute [0, 3, 4, 1, 2] u2 = Inr cs5" "shape cs5 = [bs, 2, 2, h, w]" "wf cs5"
    and cs5at: "\<And>b dx dy i j. b < bs \<Longrightarrow> dx < 2 \<Longrightarrow> dy < 2 \<Longrightarrow> i < h \<Longrightarrow> j < w \<Longrightarrow>
        entry cs5 [b, dx, dy, i, j] = entry u2 [b, i, j, dx, dy]"
    by blast
  define cs where "cs = \<lparr>shape = [bs, 4, h, w], elems = elems cs5\<rparr>"
  have v: "view [bs, 4, h, w] cs5 = Inr cs"
    unfolding cs_def using cs5 by (intro view_ok) (simp_all add: numel_def)
  have run: "color_samples_of fsum mosaic = Inr cs"
    by (simp only: color_samples_of_def g(1) u1(1) u2(1) cs5(1) cs5(2) ebind_Inr list.case v)
  have wfcs: "wf cs" using cs5 by (simp add: cs_def wf_def numel_def)
  have "entry cs [b, 2 * dx + dy, i, j]
          = fsum (map (\<lambda>c. entry mosaic [b, c, 2 * i + dy, 2 * j + dx]) [0..<C])"
    if "b < bs" "dx < 2" "dy < 2" "i < h" "j < w" for b dx dy i j
  proof -
    have "entry cs [b, 2 * dx + dy, i, j] = entry cs5 [b, dx, dy, i, j]"
      by (simp add: cs_def entry_def cs5(2) numel_def algebra_simps)
    also have "\<dots> = entry g [b, i * 2 + dy, j * 2 + dx]"
      using that by (simp add: cs5at u2at u1at)
    also have "\<dots> = fsum (map (\<lambda>c. entry mosaic [b, c, 2 * i + dy, 2 * j + dx]) [0..<C])"
      using that by (subst gat) (simp_all add: mult.commute)
    finally show ?thesis .
  qed
  then show ?thesis using run wfcs by (auto simp: cs_def)
qed

lemma cat1_four_planes:
  assumes "shape t0 = [bs, 1, h, w]" "shape t1 = [bs, 1, h, w]"
          "shape t2 = [bs, 1, h, w]" "shape t3 = [bs, 1, h, w]"
  shows "\<exists>p. cat1 [t0, t1, t2, t3] = Inr p \<and> shape p = [bs, 4, h, w] \<and> wf p \<and>
     (\<forall>b i j. b < bs \<longrightarrow> i < h \<longrightarrow> j < w \<longrightarrow>
        entry p [b, 0, i, j] = entry t0 [b, 0, i, j] \<and>
        entry p [b, 1, i, j] = entry t1 [b, 0, i, j] \<and>
        entry p [b, 2, i, j] = entry t2 [b, 0, i, j] \<and>
        entry p [b, 3, i, j] = entry t3 [b, 0, i, j])"
  using assms by (simp add: cat1_def shape_tabulate wf_tabulate at_tabulate)

lemma cat1_three_planes:
  assumes "shape t0 = [bs, 1, h, w]" "shape t1 = [bs, 1, h, w]" "shape t2 = [bs, 1, h, w]"
  shows "\<exists>p. cat1 [t0, t1, t2] = Inr p \<and> shape p = [bs, 3, h, w] \<and> wf p \<and>
     (\<forall>b i j. b < bs \<longrightarrow> i < h \<longrightarrow> j < w \<longrightarrow>
        entry p [b, 0, i, j] = entry t0 [b, 0, i, j] \<and>
        entry p [b, 1, i, j] = entry t1 [b, 0, i, j] \<and>
        entry p [b, 2, i, j] = entry t2 [b, 0, i, j])"
  using assms by (simp add: cat1_def shape_tabulate wf_tabulate at_tabulate)

lemma unroll_entries:
  assumes p: "shape p = [bs, 4, h, w]" and wfp: "wf p"
  shows "\<exists>u. unroll p = Inr u \<and> shape u = [bs, 1, h * 2, w * 2] \<and> wf u \<and>
     (\<forall>b i j pr q. b < bs \<longrightarrow> i < h \<longrightarrow> j < w \<longrightarrow> pr < 2 \<longrightarrow> q < 2 \<longrightarrow>
        entry u [b, 0, i * 2 + pr, j * 2 + q] = entry p [b, 2 * pr + q, i, j])"
proof -
  define v where "v = \<lparr>shape = [bs, 2, 2, h, w], elems = elems p\<rparr>"
  have v: "view [bs, 2, 2, h, w] p = Inr v"
    unfolding v_def using p wfp by (intro view_ok) (simp_all add: numel_def)
  have vsh: "shape v = [bs, 2, 2, h, w]" by (simp add: v_def)
  from permute_03142[OF vsh] obtain r where
    r: "permute [0, 3, 1, 4, 2] v = Inr r" "shape r = [bs, h, 2, w, 2]" "wf r"
    and rat: "\<And>b i pr j q. b < bs \<Longrightarrow> i < h \<Longrightarrow> pr < 2 \<Longrightarrow> j < w \<Longrightarrow> q < 2 \<Longrightarrow>
        entry r [b, i, pr, j, q] = entry v [b, pr, q, i, j]"
    by blast
  define u where "u = \<lparr>shape = [bs, 1, h * 2, w * 2], elems = elems r\<rparr>"
  have u: "view [bs, 1, h * 2, w * 2] r = Inr u"
    unfolding u_def using r by (intro view_ok) (simp_all add: numel_def)
  have run: "unroll p = Inr u" by (simp only: unroll_def p list.case v r(1) u ebind_Inr)
  have wfu: "wf u" using r by (simp add: u_def wf_def numel_def)
  have "entry u [b, 0, i * 2 + pr, j * 2 + q] = entry p [b, 2 * pr + q, i, j]"
    if "b < bs" "i < h" "j < w" "pr < 2" "q < 2" for b i j pr q
  proof -
    have "entry u [b, 0, i * 2 + pr, j * 2 + q] = entry r [b, i, pr, j, q]"
      by (simp add: u_def entry_def r(2) numel_def algebra_simps)
    also have "\<dots> = entry v [b, pr, q, i, j]" using that by (simp add: rat)
    also have "\<dots> = entry p [b, 2 * pr + q, i, j]"
      by (simp add: v_def entry_def p numel_def algebra_simps)
    finally show ?thesis .
  qed
  then show ?thesis using run wfu by (auto simp: u_def)
qed

subsection \<open>Unpacking and un-tiling\<close>

text \<open>
  Claim C3 says that unpacking a mosaic into its four planes and un-tiling them with
  \<open>unroll\<close> gives the mosaic back.  The unpacking numbers the planes by column offset
  first (plane \<open>2 * dx + dy\<close> holds the pixels at row offset \<open>dy\<close> and column offset
  \<open>dx\<close>), and \<open>unroll\<close> numbers them by row offset first: the mosaic with the rows
  \<open>1 2\<close> and \<open>3 4\<close> comes back with the rows \<open>1 3\<close> and \<open>2 4\<close>.
\<close>

theorem unroll_unpack_counterexample:
  "ebind (color_samples_of sum_list \<lparr>shape = [1, 1, 2, 2], elems = [1, 2, 3, 4 :: int]\<rparr>) unroll
     = Inr \<lparr>shape = [1, 1, 2, 2], elems = [1, 3, 2, 4]\<rparr> \<and>
   ebind (color_samples_of sum_list \<lparr>shape = [1, 1, 2, 2], elems = [1, 2, 3, 4 :: int]\<rparr>) unroll
     \<noteq> Inr \<lparr>shape = [1, 1, 2, 2], elems = [1, 2, 3, 4]\<rparr>"
proof -
  have "ebind (color_samples_of sum_list \<lparr>shape = [1, 1, 2, 2], elems = [1, 2, 3, 4 :: int]\<rparr>) unroll
     = Inr \<lparr>shape = [1, 1, 2, 2], elems = [1, 3, 2, 4]\<rparr>"
    by code_simp
  then show ?thesis by simp
qed

text \<open>
  Claim C3, amended.  For every non-empty mosaic with even spatial dimensions, unpacking
  it into the four planes and un-tiling them with \<open>unroll\<close> gives a one-channel tensor
  of the spatial size of the mosaic in which every \<open>2 \<times> 2\<close> tile is the transposed tile
  of the mosaic (summed over its channels, as the unpacking does): the pixel at row offset
  \<open>p\<close> and column offset \<open>q\<close> of a tile is the mosaic's pixel at row offset \<open>q\<close> and
  column offset \<open>p\<close> of the same tile.  The two diagonal pixels of every tile are
  reproduced, the other two are exchanged.
\<close>

theorem unroll_unpack_transposes_tiles:
  assumes m: "shape mosaic = [bs, C, 2 * h, 2 * w]" and pos: "0 < h" "0 < w"
  shows "\<exists>out. ebind (color_samples_of fsum mosaic) unroll = Inr out \<and>
           shape out = [bs, 1, 2 * h, 2 * w] \<and>
           (\<forall>b<bs. \<forall>i<h. \<forall>j<w. \<forall>p<2. \<forall>q<2.
              entry out [b, 0, 2 * i + p, 2 * j + q]
                = fsum (map (\<lambda>c. entry mosaic [b, c, 2 * i + q, 2 * j + p]) [0..<C]))"
proof -
  from color_samples_of_entries[OF m pos, of fsum] obtain cs where
    cs: "color_samples_of fsum mosaic = Inr cs" "shape cs = [bs, 4, h, w]" "wf cs"
    and csat: "\<And>b dx dy i j. b < bs \<Longrightarrow> dx < 2 \<Longrightarrow> dy < 2 \<Longrightarrow> i < h \<Longrightarrow> j < w \<Longrightarrow>
        entry cs [b, 2 * dx + dy, i, j]
          = fsum (map (\<lambda>c. entry mosaic [b, c, 2 * i + dy, 2 * j + dx]) [0..<C])"
    by blast
  from unroll_entries[OF cs(2,3)] obtain u where
    u: "unroll cs = Inr u" "shape u = [bs, 1, h * 2, w * 2]"
    and uat: "\<And>b i j pr q. b < bs \<Longrightarrow> i < h \<Longrightarrow> j < w \<Longrightarrow> pr < 2 \<Longrightarrow> q < 2 \<Longrightarrow>
        entry u [b, 0, i * 2 + pr, j * 2 + q] = entry cs [b, 2 * pr + q, i, j]"
    by blast
  have run: "ebind (color_samples_of fsum mosaic) unroll = Inr u"
    by (simp only: cs(1) ebind_Inr u(1))
  have "entry u [b, 0, 2 * i + p, 2 * j + q]
                = fsum (map (\<lambda>c. entry mosaic [b, c, 2 * i + q, 2 * j + p]) [0..<C])"
    if "b < bs" "i < h" "j < w" "p < 2" "q < 2" for b i j p q
    using uat[OF that] csat[OF that(1,4,5,2,3)] by (simp add: mult.commute)
  then show ?thesis using run u(2) by (simp add: mult.commute)
qed

theorem unroll_unpack_transposes_tiles_witness:
  "shape \<lparr>shape = [1, 1, 2, 4], elems = [1, 2, 3, 4, 5, 6, 7, 8 :: int]\<rparr> = [1, 1, 2 * 1, 2 * 2] \<and>
   (\<exists>out. ebind (color_samples_of sum_list
                    \<lparr>shape = [1, 1, 2, 4], elems = [1, 2, 3, 4, 5, 6, 7, 8 :: int]\<rparr>) unroll
             = Inr out \<and>
          shape out = [1, 1, 2, 4] \<and>
          entry out [0, 0, 0, 0] = 1 \<and> entry out [0, 0, 0, 1] = 5 \<and>
          entry out [0, 0, 1, 0] = 2 \<and> entry out [0, 0, 0, 3] = 7)"
proof -
  let ?m = "\<lparr>shape = [1, 1, 2, 4], elems = [1, 2, 3, 4, 5, 6, 7, 8 :: int]\<rparr>"
  have sh: "shape ?m = [1, 1, 2 * 1, 2 * 2]" by simp
  from unroll_unpack_transposes_tiles[of ?m 1 1 1 2 sum_list, OF sh]
  obtain out where o: "ebind (color_samples_of sum_list ?m) unroll = Inr out \<and>
           shape out = [1, 1, 2 * 1, 2 * 2] \<and>
           (\<forall>b<1. \<forall>i<1. \<forall>j<2. \<forall>p<2. \<forall>q<2.
              entry out [b, 0, 2 * i + p, 2 * j + q]
                = sum_list (map (\<lambda>c. entry ?m [b, c, 2 * i + q, 2 * j + p]) [0..<1]))"
    by (elim exE | simp)+
  from o have run: "ebind (color_samples_of sum_list ?m) unroll = Inr out"
    by (rule conjunct1)
  from o have osh: "shape out = [1, 1, 2 * 1, 2 * 2]"
    by (rule conjunct1[OF conjunct2])
  from o have outat: "\<forall>b<1. \<forall>i<1. \<forall>j<2. \<forall>p<2. \<forall>q<2.
              entry out [b, 0, 2 * i + p, 2 * j + q]
                = sum_list (map (\<lambda>c. entry ?m [b, c, 2 * i + q, 2 * j + p]) [0..<1])"
    by (rule conjunct2[OF conjunct2])
  have e1: "entry out [0, 0, 2 * 0 + 0, 2 * 0 + 0] = 1"
    by (subst outat[rule_format, of 0 0 0 0 0]) (simp_all add: entry_def numel_def)
  have e2: "entry out [0, 0, 2 * 0 + 0, 2 * 0 + 1] = 5"
    by (subst outat[rule_format, of 0 0 0 0 1]) (simp_all add: entry_def numel_def)
  have e3: "entry out [0, 0, 2 * 0 + 1, 2 * 0 + 0] = 2"
    by (subst outat[rule_format, of 0 0 0 1 0]) (simp_all add: entry_def numel_def)
  have e4: "entry out [0, 0, 2 * 0 + 0, 2 * 1 + 1] = 7"
    by (subst outat[rule_format, of 0 0 1 0 1]) (simp_all add: entry_def numel_def)
  show ?thesis using run osh e1 e2 e3 e4 by simp
qed

subsection \<open>The places of the known planes\<close>

text \<open>
  Claim C4 says that the reassembly puts the known red plane at offset 1 of the
  \<open>2 \<times> 2\<close> tile, the known blue plane at offset 0 and the known greens at the offsets 0
  and 3.  The reordering of the blue planes puts the first estimate at offset 0 and the
  known plane at offset 2, the lower left pixel of the tile.
\<close>

theorem known_blue_offset_counterexample:
  "blue_tile [\<lparr>shape = [1, 1, 1, 1], elems = [7 :: int]\<rparr>, \<lparr>shape = [1, 1, 1, 1], elems = [1]\<rparr>,
              \<lparr>shape = [1, 1, 1, 1], elems = [2]\<rparr>, \<lparr>shape = [1, 1, 1, 1], elems = [3]\<rparr>] ! 0
     = \<lparr>shape = [1, 1, 1, 1], elems = [1]\<rparr> \<and>
   blue_tile [\<lparr>shape = [1, 1, 1, 1], elems = [7 :: int]\<rparr>, \<lparr>shape = [1, 1, 1, 1], elems = [1]\<rparr>,
              \<lparr>shape = [1, 1, 1, 1], elems = [2]\<rparr>, \<lparr>shape = [1, 1, 1, 1], elems = [3]\<rparr>] ! 0
     \<noteq> \<lparr>shape = [1, 1, 1, 1], elems = [7]\<rparr> \<and>
   ebind (cat1 (blue_tile
       [\<lparr>shape = [1, 1, 1, 1], elems = [7 :: int]\<rparr>, \<lparr>shape = [1, 1, 1, 1], elems = [1]\<rparr>,
        \<lparr>shape = [1, 1, 1, 1], elems = [2]\<rparr>, \<lparr>shape = [1, 1, 1, 1], elems = [3]\<rparr>])) unroll
     = Inr \<lparr>shape = [1, 1, 2, 2], elems = [1, 2, 7, 3]\<rparr>"
proof -
  have "ebind (cat1 (blue_tile
       [\<lparr>shape = [1, 1, 1, 1], elems = [7 :: int]\<rparr>, \<lparr>shape = [1, 1, 1, 1], elems = [1]\<rparr>,
        \<lparr>shape = [1, 1, 1, 1], elems = [2]\<rparr>, \<lparr>shape = [1, 1, 1, 1], elems = [3]\<rparr>])) unroll
     = Inr \<lparr>shape = [1, 1, 2, 2], elems = [1, 2, 7, 3]\<rparr>"
    by code_simp
  then show ?thesis by (simp add: blue_tile_def)
qed

lemma tile_planes:
  assumes s: "shape t0 = [bs, 1, h, w]" "shape t1 = [bs, 1, h, w]"
             "shape t2 = [bs, 1, h, w]" "shape t3 = [bs, 1, h, w]"
  shows "\<exists>out. ebind (cat1 [t0, t1, t2, t3]) unroll = Inr out \<and>
           shape out = [bs, 1, 2 * h, 2 * w] \<and> wf out \<and>
           (\<forall>b<bs. \<forall>i<h. \<forall>j<w.
              entry out [b, 0, 2 * i, 2 * j] = entry t0 [b, 0, i, j] \<and>
              entry out [b, 0, 2 * i, 2 * j + 1] = entry t1 [b, 0, i, j] \<and>
              entry out [b, 0, 2 * i + 1, 2 * j] = entry t2 [b, 0, i, j] \<and>
              entry out [b, 0, 2 * i + 1, 2 * j + 1] = entry t3 [b, 0, i, j])"
proof -
  from cat1_four_planes[OF s] obtain p where
    p: "cat1 [t0, t1, t2, t3] = Inr p" "shape p = [bs, 4, h, w]" "wf p"
    and pat: "\<And>b i j. b < bs \<Longrightarrow> i < h \<Longrightarrow> j < w \<Longrightarrow>
        entry p [b, 0, i, j] = entry t0 [b, 0, i, j] \<and>
        entry p [b, 1, i, j] = entry t1 [b, 0, i, j] \<and>
        entry p [b, 2, i, j] = entry t2 [b, 0, i, j] \<and>
        entry p [b, 3, i, j] = entry t3 [b, 0, i, j]"
    by blast
  from unroll_entries[OF p(2,3)] obtain u where
    u: "unroll p = Inr u" "shape u = [bs, 1, h * 2, w * 2]" "wf u"
    and uat: "\<And>b i j pr q. b < bs \<Longrightarrow> i < h \<Longrightarrow> j < w \<Longrightarrow> pr < 2 \<Longrightarrow> q < 2 \<Longrightarrow>
        entry u [b, 0, i * 2 + pr, j * 2 + q] = entry p [b, 2 * pr + q, i, j]"
    by blast
  have run: "ebind (cat1 [t0, t1, t2, t3]) unroll = Inr u"
    by (simp only: p(1) ebind_Inr u(1))
  have "entry u [b, 0, 2 * i, 2 * j] = entry t0 [b, 0, i, j] \<and>
        entry u [b, 0, 2 * i, 2 * j + 1] = entry t1 [b, 0, i, j] \<and>
        entry u [b, 0, 2 * i + 1, 2 * j] = entry t2 [b, 0, i, j] \<and>
        entry u [b, 0, 2 * i + 1, 2 * j + 1] = entry t3 [b, 0, i, j]"
    if "b < bs" "i < h" "j < w" for b i j
    using uat[OF that, of 0 0] uat[OF that, of 0 1] uat[OF that, of 1 0] uat[OF that, of 1 1]
          pat[OF that]
    by (simp add: mult.commute)
  then show ?thesis using run u(2,3) by (simp add: mult.commute)
qed

text \<open>
  Claim C4, amended.  In the lists that are concatenated and un-tiled, the known red plane
  is at offset 1, the known blue plane at offset 2 and the two known green planes at the
  offsets 0 and 3; offset \<open>o\<close> is the pixel at row offset \<open>o div 2\<close> and column offset
  \<open>o mod 2\<close> of every \<open>2 \<times> 2\<close> tile.  So the known red fills the upper right pixel of
  every tile of the red channel, the known blue the lower left pixel of the blue channel,
  and the known greens the upper left and the lower right pixel of the green channel.
  Here \<open>k\<close> (and \<open>k'\<close>) are the known planes, at the head of the list as \<open>forward\<close> builds
  it, and the other planes are the estimates.
\<close>

theorem known_planes_tile_offsets:
  assumes s: "shape k = [bs, 1, h, w]" "shape k' = [bs, 1, h, w]"
             "shape e1 = [bs, 1, h, w]" "shape e2 = [bs, 1, h, w]" "shape e3 = [bs, 1, h, w]"
  shows "red_tile [k, e1, e2, e3] ! 1 = k \<and> blue_tile [k, e1, e2, e3] ! 2 = k \<and>
         green_tile [k, k', e2, e3] ! 0 = k \<and> green_tile [k, k', e2, e3] ! 3 = k' \<and>
         (\<exists>red. ebind (cat1 (red_tile [k, e1, e2, e3])) unroll = Inr red \<and>
            shape red = [bs, 1, 2 * h, 2 * w] \<and>
            (\<forall>b<bs. \<forall>i<h. \<forall>j<w. entry red [b, 0, 2 * i, 2 * j + 1] = entry k [b, 0, i, j])) \<and>
         (\<exists>blue. ebind (cat1 (blue_tile [k, e1, e2, e3])) unroll = Inr blue \<and>
            shape blue = [bs, 1, 2 * h, 2 * w] \<and>
            (\<forall>b<bs. \<forall>i<h. \<forall>j<w. entry blue [b, 0, 2 * i + 1, 2 * j] = entry k [b, 0, i, j])) \<and>
         (\<exists>green. ebind (cat1 (green_tile [k, k', e2, e3])) unroll = Inr green \<and>
            shape green = [bs, 1, 2 * h, 2 * w] \<and>
            (\<forall>b<bs. \<forall>i<h. \<forall>j<w.
               entry green [b, 0, 2 * i, 2 * j] = entry k [b, 0, i, j] \<and>
               entry green [b, 0, 2 * i + 1, 2 * j + 1] = entry k' [b, 0, i, j]))"
proof -
  have r: "red_tile [k, e1, e2, e3] = [e1, k, e2, e3]"
    and b: "blue_tile [k, e1, e2, e3] = [e1, e2, k, e3]"
    and g: "green_tile [k, k', e2, e3] = [k, e2, e3, k']"
    by (simp_all add: red_tile_def blue_tile_def green_tile_def)
  have "\<exists>red. ebind (cat1 (red_tile [k, e1, e2, e3])) unroll = Inr red \<and>
            shape red = [bs, 1, 2 * h, 2 * w] \<and>
            (\<forall>b<bs. \<forall>i<h. \<forall>j<w. entry red [b, 0, 2 * i, 2 * j + 1] = entry k [b, 0, i, j])"
    unfolding r using tile_planes[OF s(3) s(1) s(4) s(5)] by blast
  moreover have "\<exists>blue. ebind (cat1 (blue_tile [k, e1, e2, e3])) unroll = Inr blue \<and>
            shape blue = [bs, 1, 2 * h, 2 * w] \<and>
            (\<forall>b<bs. \<forall>i<h. \<forall>j<w. entry blue [b, 0, 2 * i + 1, 2 * j] = entry k [b, 0, i, j])"
    unfolding b using tile_planes[OF s(3) s(4) s(1) s(5)] by blast
  moreover have "\<exists>green. ebind (cat1 (green_tile [k, k', e2, e3])) unroll = Inr green \<and>
            shape green = [bs, 1, 2 * h, 2 * w] \<and>
            (\<forall>b<bs. \<forall>i<h. \<forall>j<w.
               entry green [b, 0, 2 * i, 2 * j] = entry k [b, 0, i, j] \<and>
               entry green [b, 0, 2 * i + 1, 2 * j + 1] = entry k' [b, 0, i, j])"
    unfolding g using tile_planes[OF s(1) s(4) s(5) s(2)] by blast
  ultimately show ?thesis by (simp add: r b g)
qed

theorem known_planes_tile_offsets_witness:
  "shape \<lparr>shape = [1, 1, 1, 1], elems = [7 :: int]\<rparr> = [1, 1, 1, 1] \<and>
   shape \<lparr>shape = [1, 1, 1, 1], elems = [8 :: int]\<rparr> = [1, 1, 1, 1] \<and>
   blue_tile [\<lparr>shape = [1, 1, 1, 1], elems = [7 :: int]\<rparr>, \<lparr>shape = [1, 1, 1, 1], elems = [1]\<rparr>,
              \<lparr>shape = [1, 1, 1, 1], elems = [2]\<rparr>, \<lparr>shape = [1, 1, 1, 1], elems = [3]\<rparr>] ! 2
     = \<lparr>shape = [1, 1, 1, 1], elems = [7]\<rparr> \<and>
   (\<exists>blue. ebind (cat1 (blue_tile
        [\<lparr>shape = [1, 1, 1, 1], elems = [7 :: int]\<rparr>, \<lparr>shape = [1, 1, 1, 1], elems = [1]\<rparr>,
         \<lparr>shape = [1, 1, 1, 1], elems = [2]\<rparr>, \<lparr>shape = [1, 1, 1, 1], elems = [3]\<rparr>])) unroll
        = Inr blue \<and> shape blue = [1, 1, 2, 2] \<and> entry blue [0, 0, 1, 0] = 7) \<and>
   (\<exists>red. ebind (cat1 (red_tile
        [\<lparr>shape = [1, 1, 1, 1], elems = [7 :: int]\<rparr>, \<lparr>shape = [1, 1, 1, 1], elems = [1]\<rparr>,
         \<lparr>shape = [1, 1, 1, 1], elems = [2]\<rparr>, \<lparr>shape = [1, 1, 1, 1], elems = [3]\<rparr>])) unroll
        = Inr red \<and> shape red = [1, 1, 2, 2] \<and> entry red [0, 0, 0, 1] = 7) \<and>
   (\<exists>green. ebind (cat1 (green_tile
        [\<lparr>shape = [1, 1, 1, 1], elems = [7 :: int]\<rparr>, \<lparr>shape = [1, 1, 1, 1], elems = [8]\<rparr>,
         \<lparr>shape = [1, 1, 1, 1], elems = [2]\<rparr>, \<lparr>shape = [1, 1, 1, 1], elems = [3]\<rparr>])) unroll
        = Inr green \<and> shape green = [1, 1, 2, 2] \<and>
        entry green [0, 0, 0, 0] = 7 \<and> entry green [0, 0, 1, 1] = 8)"
proof -
  let ?k = "\<lparr>shape = [1, 1, 1, 1], elems = [7 :: int]\<rparr>"
  let ?k' = "\<lparr>shape = [1, 1, 1, 1], elems = [8 :: int]\<rparr>"
  let ?e1 = "\<lparr>shape = [1, 1, 1, 1], elems = [1 :: int]\<rparr>"
  let ?e2 = "\<lparr>shape = [1, 1, 1, 1], elems = [2 :: int]\<rparr>"
  let ?e3 = "\<lparr>shape = [1, 1, 1, 1], elems = [3 :: int]\<rparr>"
  have s: "shape ?k = [1, 1, 1, 1]" "shape ?k' = [1, 1, 1, 1]" "shape ?e1 = [1, 1, 1, 1]"
          "shape ?e2 = [1, 1, 1, 1]" "shape ?e3 = [1, 1, 1, 1]"
    by simp_all
  note t = known_planes_tile_offsets[OF s]
  have v: "entry ?k [0, 0, 0, 0] = 7" "entry ?k' [0, 0, 0, 0] = 8"
    by (simp_all add: entry_def numel_def)
  from t have b2: "blue_tile [?k, ?e1, ?e2, ?e3] ! 2 = ?k"
    by (rule conjunct1[OF conjunct2])
  from t obtain red where red: "ebind (cat1 (red_tile [?k, ?e1, ?e2, ?e3])) unroll = Inr red"
      "shape red = [1, 1, 2 * 1, 2 * 1]"
      "\<forall>b<1. \<forall>i<1. \<forall>j<1. entry red [b, 0, 2 * i, 2 * j + 1] = entry ?k [b, 0, i, j]"
    by (elim conjE exE)
  from t obtain blue where blue: "ebind (cat1 (blue_tile [?k, ?e1, ?e2, ?e3])) unroll = Inr blue"
      "shape blue = [1, 1, 2 * 1, 2 * 1]"
      "\<forall>b<1. \<forall>i<1. \<forall>j<1. entry blue [b, 0, 2 * i + 1, 2 * j] = entry ?k [b, 0, i, j]"
    by (elim conjE exE)
  from t obtain green where green:
      "ebind (cat1 (green_tile [?k, ?k', ?e2, ?e3])) unroll = Inr green"
      "shape green = [1, 1, 2 * 1, 2 * 1]"
      "\<forall>b<1. \<forall>i<1. \<forall>j<1. entry green [b, 0, 2 * i, 2 * j] = entry ?k [b, 0, i, j] \<and>
               entry green [b, 0, 2 * i + 1, 2 * j + 1] = entry ?k' [b, 0, i, j]"
    by (elim conjE exE)
  have r1: "entry red [0, 0, 0, 1] = 7"
    using red(3)[rule_format, of 0 0 0] v by simp
  have b1: "entry blue [0, 0, 1, 0] = 7"
    using blue(3)[rule_format, of 0 0 0] v by simp
  have g1: "entry green [0, 0, 0, 0] = 7" "entry green [0, 0, 1, 1] = 8"
    using green(3)[rule_format, of 0 0 0] v by simp_all
  have "\<exists>blue. ebind (cat1 (blue_tile [?k, ?e1, ?e2, ?e3])) unroll = Inr blue \<and>
          shape blue = [1, 1, 2, 2] \<and> entry blue [0, 0, 1, 0] = 7"
    using blue(1,2) b1 by simp
  moreover have "\<exists>red. ebind (cat1 (red_tile [?k, ?e1, ?e2, ?e3])) unroll = Inr red \<and>
          shape red = [1, 1, 2, 2] \<and> entry red [0, 0, 0, 1] = 7"
    using red(1,2) r1 by simp
  moreover have "\<exists>green. ebind (cat1 (green_tile [?k, ?k', ?e2, ?e3])) unroll = Inr green \<and>
          shape green = [1, 1, 2, 2] \<and>
          entry green [0, 0, 0, 0] = 7 \<and> entry green [0, 0, 1, 1] = 8"
    using green(1,2) g1 by simp
  ultimately show ?thesis using b2 by simp
qed

end
